theory Spec2Isabelle
  imports Main "HOL-Library.Sublist"
begin

section \<open>Shared-channel sync messages (services/sharedchannel/msg.go)\<close>

text \<open>
  A shallow embedding of \<^verbatim>\<open>postsToSyncMessages\<close>, \<^verbatim>\<open>usersForPost\<close>,
  \<^verbatim>\<open>sanitizeUserForSync\<close> and \<^verbatim>\<open>shouldUserSync\<close>.

  The store, the logger, the permalink rewriter, the attachment resolver,
  \<^verbatim>\<open>model.NewId\<close> and \<^verbatim>\<open>Post.IsSystemMessage\<close> live outside
  \<^verbatim>\<open>msg.go\<close>. They are parameters of the model, gathered in the record
  \<open>Service\<close>: each one is a function on an abstract world \<open>'w\<close> that it may read
  and change, so every theorem holds for every behaviour of these collaborators.

  The \<^verbatim>\<open>int64\<close> timestamps are modelled as \<open>int\<close>: the code only compares them
  with each other and with 0 (signed comparisons) and stores 0, so no arithmetic can wrap.

  The pointers that the code dereferences without a test (the posts of the list, the
  remote, the user of a lookup that returned no error) are values of the model. Where the
  code writes through a pointer (\<^verbatim>\<open>sanitizeUserForSync\<close> into the user it is given,
  \<^verbatim>\<open>usersForPost\<close> into the cache), the model returns the new value.
\<close>

subsection \<open>Data\<close>

text \<open>
  Go's \<^verbatim>\<open>error\<close> interface. The only thing the code asks of an error is whether it
  implements \<^verbatim>\<open>errNotFound\<close> (the type assertion in \<^verbatim>\<open>shouldUserSync\<close>).
\<close>

datatype error = ErrNotFound string | ErrOther string

fun is_errNotFound :: "error \<Rightarrow> bool" where
  "is_errNotFound (ErrNotFound _) = True"
| "is_errNotFound (ErrOther _) = False"

text \<open>
  The records carry the fields that \<^verbatim>\<open>msg.go\<close> names; the extension slot of each
  record scheme (\<open>more\<close>) stands for all the other fields of the Go struct.
  A \<^verbatim>\<open>*string\<close> is a \<open>string option\<close> (\<open>None\<close> is \<^verbatim>\<open>nil\<close>), a
  \<^verbatim>\<open>model.StringMap\<close> is a map (a \<^verbatim>\<open>nil\<close> map and an empty map are both
  \<open>Map.empty\<close>), a slice is a list (a \<^verbatim>\<open>nil\<close> slice and an empty slice are both
  \<open>[]\<close>; the code only takes \<^verbatim>\<open>len\<close> of them and ranges over them).
\<close>

record RemoteCluster =
  RemoteId :: string

record Post =
  Id :: string
  ChannelId :: string
  UserId :: string
  Message :: string
  EditAt :: int
  DeleteAt :: int
  RemoteId :: "string option"

record Reaction =
  UserId :: string

record User =
  Id :: string
  UpdateAt :: int
  RemoteId :: "string option"
  Password :: string
  AuthData :: "string option"
  AuthService :: string
  Roles :: string
  AllowMarketing :: bool
  Props :: "string \<rightharpoonup> string"
  NotifyProps :: "string \<rightharpoonup> string"
  LastPasswordUpdate :: int
  LastPictureUpdate :: int
  FailedAttempts :: int
  MfaActive :: bool
  MfaSecret :: string

text \<open>
  \<^verbatim>\<open>model.SharedChannelUser\<close>: the code writes \<^verbatim>\<open>UserId\<close> and
  \<^verbatim>\<open>RemoteId\<close> of a new value, whose other fields keep Go's zero value, and reads
  \<^verbatim>\<open>LastSyncAt\<close>.
\<close>

record SharedChannelUser =
  UserId :: string
  RemoteId :: string
  LastSyncAt :: int

record ('p, 'u, 'r, 'f) syncMsg =
  ChannelId :: string
  PostId :: string
  Post :: "'p Post_scheme option"
  Users :: "'u User_scheme list"
  Reactions :: "'r Reaction_scheme list"
  Attachments :: "'f list"

type_synonym userCache = "string set"

definition Has :: "userCache \<Rightarrow> string \<Rightarrow> bool" where
  "Has u uid = (uid \<in> u)"

definition Add :: "userCache \<Rightarrow> string \<Rightarrow> userCache" where
  "Add u uid = insert uid u"

subsection \<open>Collaborators\<close>

text \<open>
  A Go call returning \<^verbatim>\<open>(value, error)\<close> whose value is only used when the error
  is \<^verbatim>\<open>nil\<close> returns \<open>error + value\<close>; \<^verbatim>\<open>postToAttachments\<close> returns the
  pair, because the code keeps its slice whatever the error is.
\<close>

record ('w, 'p, 'u, 'r, 'c, 'f) Service =
  IsSystemMessage :: "'p Post_scheme \<Rightarrow> bool"
  GetForPostSince :: "string \<Rightarrow> int \<Rightarrow> string \<Rightarrow> bool \<Rightarrow> 'w \<Rightarrow> (error + 'r Reaction_scheme list) \<times> 'w"
  UserGet :: "string \<Rightarrow> 'w \<Rightarrow> (error + 'u User_scheme) \<times> 'w"
  GetUser :: "string \<Rightarrow> string \<Rightarrow> 'w \<Rightarrow> (error + SharedChannelUser) \<times> 'w"
  SaveUser :: "SharedChannelUser \<Rightarrow> 'w \<Rightarrow> (error + SharedChannelUser) \<times> 'w"
  NewId :: "'w \<Rightarrow> string \<times> 'w"
  processPermalinkToRemote :: "'p Post_scheme \<Rightarrow> 'w \<Rightarrow> string \<times> 'w"
  postToAttachments :: "'p Post_scheme \<Rightarrow> 'c RemoteCluster_scheme \<Rightarrow> int \<Rightarrow> 'w \<Rightarrow> ('f list \<times> error option) \<times> 'w"
  Log :: "string \<Rightarrow> 'w \<Rightarrow> 'w"

subsection \<open>sanitizeUserForSync\<close>

definition sanitizeUserForSync ::
  "('w, 'p, 'u, 'r, 'c, 'f) Service \<Rightarrow> 'u User_scheme \<Rightarrow> 'w \<Rightarrow> 'u User_scheme \<times> 'w" where
  "sanitizeUserForSync scs user w =
     (case NewId scs w of (newId, w1) \<Rightarrow>
        (user\<lparr>Password := newId,
              AuthData := None,
              AuthService := '''',
              Roles := ''system_user'',
              AllowMarketing := False,
              Props := Map.empty,
              NotifyProps := Map.empty,
              LastPasswordUpdate := 0,
              LastPictureUpdate := 0,
              FailedAttempts := 0,
              MfaActive := False,
              MfaSecret := ''''\<rparr>, w1))"

subsection \<open>shouldUserSync\<close>

definition shouldUserSync ::
  "('w, 'p, 'u, 'r, 'c, 'f) Service \<Rightarrow> 'u User_scheme \<Rightarrow> 'c RemoteCluster_scheme \<Rightarrow> 'w
     \<Rightarrow> (bool \<times> error option) \<times> 'w" where
  "shouldUserSync scs user rc w =
     (if User.RemoteId user \<noteq> None \<and> the (User.RemoteId user) = RemoteCluster.RemoteId rc
      then ((False, None), w)
      else
        (case GetUser scs (User.Id user) (RemoteCluster.RemoteId rc) w of
           (Inl err, w1) \<Rightarrow>
             if \<not> is_errNotFound err then ((False, Some err), w1)
             else
               (case SaveUser scs \<lparr>SharedChannelUser.UserId = User.Id user,
                                   SharedChannelUser.RemoteId = RemoteCluster.RemoteId rc,
                                   LastSyncAt = 0\<rparr> w1 of
                  (Inl err', w2) \<Rightarrow>
                    ((True, None), Log scs ''Error adding user to shared channel users'' w2)
                | (Inr _, w2) \<Rightarrow> ((True, None), w2))
         | (Inr scu, w1) \<Rightarrow>
             if LastSyncAt scu \<ge> UpdateAt user then ((False, None), w1)
             else ((True, None), w1)))"

subsection \<open>usersForPost\<close>

text \<open>
  The first loop of \<^verbatim>\<open>usersForPost\<close>: the authors of the reactions that the
  cache has not seen, each added to the cache as it is selected.
\<close>

fun usersForPost_ids ::
  "'r Reaction_scheme list \<Rightarrow> string list \<Rightarrow> userCache \<Rightarrow> string list \<times> userCache" where
  "usersForPost_ids [] userIds uCache = (userIds, uCache)"
| "usersForPost_ids (r # reactions) userIds uCache =
     (if \<not> Has uCache (Reaction.UserId r)
      then usersForPost_ids reactions (userIds @ [Reaction.UserId r]) (Add uCache (Reaction.UserId r))
      else usersForPost_ids reactions userIds uCache)"

text \<open>
  The second loop: look each selected id up, ask \<^verbatim>\<open>shouldUserSync\<close>, and append
  the sanitized user. Both failures are logged and the loop goes on.
\<close>

fun usersForPost_users ::
  "('w, 'p, 'u, 'r, 'c, 'f) Service \<Rightarrow> 'c RemoteCluster_scheme \<Rightarrow> string list
     \<Rightarrow> 'u User_scheme list \<Rightarrow> 'w \<Rightarrow> 'u User_scheme list \<times> 'w" where
  "usersForPost_users scs rc [] users w = (users, w)"
| "usersForPost_users scs rc (uid # userIds) users w =
     (case UserGet scs uid w of
        (Inr user, w1) \<Rightarrow>
          (case shouldUserSync scs user rc w1 of
             ((sync, Some err2), w2) \<Rightarrow>
               usersForPost_users scs rc userIds users (Log scs ''Could not find user for post'' w2)
           | ((sync, None), w2) \<Rightarrow>
               if sync
               then (case sanitizeUserForSync scs user w2 of
                       (sanitized, w3) \<Rightarrow> usersForPost_users scs rc userIds (users @ [sanitized]) w3)
               else usersForPost_users scs rc userIds users w2)
      | (Inl err, w1) \<Rightarrow>
          usersForPost_users scs rc userIds users (Log scs ''Error checking if user should sync'' w1))"

text \<open>
  \<^verbatim>\<open>usersForPost\<close> changes the cache it is given; the model returns the new cache
  beside the users.
\<close>

definition usersForPost ::
  "('w, 'p, 'u, 'r, 'c, 'f) Service \<Rightarrow> 'p Post_scheme option \<Rightarrow> 'r Reaction_scheme list
     \<Rightarrow> 'c RemoteCluster_scheme \<Rightarrow> userCache \<Rightarrow> 'w \<Rightarrow> 'u User_scheme list \<times> userCache \<times> 'w" where
  "usersForPost scs post reactions rc uCache w =
     (case (case post of
              Some p \<Rightarrow>
                if \<not> Has uCache (Post.UserId p)
                then ([Post.UserId p], Add uCache (Post.UserId p))
                else ([], uCache)
            | None \<Rightarrow> ([], uCache)) of
        (userIds0, uCache0) \<Rightarrow>
          (case usersForPost_ids reactions userIds0 uCache0 of
             (userIds, uCache1) \<Rightarrow>
               (case usersForPost_users scs rc userIds [] w of
                  (users, w1) \<Rightarrow> (users, uCache1, w1))))"

subsection \<open>postsToSyncMessages\<close>

text \<open>
  The body of the loop over the posts, for one post: \<open>Inl\<close> is the
  \<^verbatim>\<open>return nil, err\<close>, \<open>Inr None\<close> a \<^verbatim>\<open>continue\<close>, \<open>Inr (Some sm)\<close> the
  message appended. \<^verbatim>\<open>postSync\<close> points to the post \<^verbatim>\<open>p\<close> itself, so the
  assignment to \<^verbatim>\<open>postSync.Message\<close> also changes the caller's post; the model
  keeps posts as values and records the new message in the post it emits (no field read
  afterwards is touched by that assignment).
\<close>

definition postsToSyncMessages_post ::
  "('w, 'p, 'u, 'r, 'c, 'f) Service \<Rightarrow> 'p Post_scheme \<Rightarrow> 'c RemoteCluster_scheme \<Rightarrow> int
     \<Rightarrow> userCache \<Rightarrow> 'w \<Rightarrow> (error + ('p, 'u, 'r, 'f) syncMsg option) \<times> userCache \<times> 'w" where
  "postsToSyncMessages_post scs p rc nextSyncAt uCache w =
     (if IsSystemMessage scs p then (Inr None, uCache, w)
      else
        (case GetForPostSince scs (Post.Id p) nextSyncAt (RemoteCluster.RemoteId rc) True w of
           (Inl err, w1) \<Rightarrow> (Inl err, uCache, w1)
         | (Inr reactions, w1) \<Rightarrow>
             (let postSync0 =
                    (if EditAt p > 0 \<and> EditAt p < nextSyncAt \<and> DeleteAt p = 0 then None else Some p);
                  postSync1 =
                    (if Post.RemoteId p \<noteq> None \<and> the (Post.RemoteId p) = RemoteCluster.RemoteId rc
                     then None else postSync0)
              in
                (case (case postSync1 of
                         None \<Rightarrow> (None, [], w1)
                       | Some ps \<Rightarrow>
                           (case processPermalinkToRemote scs ps w1 of
                              (msg, w2) \<Rightarrow>
                                (case postToAttachments scs (ps\<lparr>Message := msg\<rparr>) rc nextSyncAt w2 of
                                   ((attachments, None), w3) \<Rightarrow>
                                     (Some (ps\<lparr>Message := msg\<rparr>), attachments, w3)
                                 | ((attachments, Some err), w3) \<Rightarrow>
                                     (Some (ps\<lparr>Message := msg\<rparr>), attachments,
                                      Log scs ''Could not fetch attachments for post'' w3)))) of
                   (postSync, attachments, w4) \<Rightarrow>
                     (case usersForPost scs postSync reactions rc uCache w4 of
                        (users, uCache1, w5) \<Rightarrow>
                          if postSync = None \<and> length reactions = 0 \<and> length users = 0
                          then (Inr None, uCache1, w5)
                          else (Inr (Some \<lparr>ChannelId = Post.ChannelId p,
                                            PostId = Post.Id p,
                                            Post = postSync,
                                            Users = users,
                                            Reactions = reactions,
                                            Attachments = attachments\<rparr>), uCache1, w5))))))"

fun postsToSyncMessages_loop ::
  "('w, 'p, 'u, 'r, 'c, 'f) Service \<Rightarrow> 'c RemoteCluster_scheme \<Rightarrow> int \<Rightarrow> 'p Post_scheme list
     \<Rightarrow> ('p, 'u, 'r, 'f) syncMsg list \<Rightarrow> userCache \<Rightarrow> 'w
     \<Rightarrow> (error + ('p, 'u, 'r, 'f) syncMsg list) \<times> 'w" where
  "postsToSyncMessages_loop scs rc nextSyncAt [] syncMessages uCache w = (Inr syncMessages, w)"
| "postsToSyncMessages_loop scs rc nextSyncAt (p # posts) syncMessages uCache w =
     (case postsToSyncMessages_post scs p rc nextSyncAt uCache w of
        (Inl err, uCache1, w1) \<Rightarrow> (Inl err, w1)
      | (Inr None, uCache1, w1) \<Rightarrow>
          postsToSyncMessages_loop scs rc nextSyncAt posts syncMessages uCache1 w1
      | (Inr (Some sm), uCache1, w1) \<Rightarrow>
          postsToSyncMessages_loop scs rc nextSyncAt posts (syncMessages @ [sm]) uCache1 w1)"

definition postsToSyncMessages ::
  "('w, 'p, 'u, 'r, 'c, 'f) Service \<Rightarrow> 'p Post_scheme list \<Rightarrow> 'c RemoteCluster_scheme \<Rightarrow> int
     \<Rightarrow> 'w \<Rightarrow> (error + ('p, 'u, 'r, 'f) syncMsg list) \<times> 'w" where
  "postsToSyncMessages scs posts rc nextSyncAt w =
     postsToSyncMessages_loop scs rc nextSyncAt posts [] {} w"

subsection \<open>An in-memory instance of the collaborators\<close>

text \<open>
  A small store kept in memory, on which the functions above can be run: a table of
  users, a table of the reactions of each post, the ids of the system posts and of the
  posts whose reaction fetch fails. The world holds the saved cursors, the number of ids
  issued and the log.
\<close>

record World =
  cursors :: "SharedChannelUser list"
  issued :: nat
  logged :: "string list"

definition memService ::
  "(string \<times> User) list \<Rightarrow> (string \<times> Reaction list) list \<Rightarrow> string list \<Rightarrow> string list
     \<Rightarrow> (World, unit, unit, unit, unit, string) Service" where
  "memService utab rtab sysIds badIds =
     \<lparr>IsSystemMessage = (\<lambda>p. Post.Id p \<in> set sysIds),
      GetForPostSince = (\<lambda>pid since rid excl w.
         if pid \<in> set badIds then (Inl (ErrOther ''reaction store unavailable''), w)
         else (Inr (case map_of rtab pid of None \<Rightarrow> [] | Some rs \<Rightarrow> rs), w)),
      UserGet = (\<lambda>uid w.
         case map_of utab uid of None \<Rightarrow> (Inl (ErrNotFound uid), w) | Some u \<Rightarrow> (Inr u, w)),
      GetUser = (\<lambda>uid rid w.
         case find (\<lambda>c. SharedChannelUser.UserId c = uid \<and> SharedChannelUser.RemoteId c = rid)
                   (cursors w) of
           None \<Rightarrow> (Inl (ErrNotFound uid), w)
         | Some c \<Rightarrow> (Inr c, w)),
      SaveUser = (\<lambda>c w. (Inr c, w\<lparr>cursors := c # cursors w\<rparr>)),
      NewId = (\<lambda>w. (replicate (Suc (issued w)) (CHR ''k''), w\<lparr>issued := Suc (issued w)\<rparr>)),
      processPermalinkToRemote = (\<lambda>p w. (Message p, w)),
      postToAttachments = (\<lambda>p rc t w. (([], None), w)),
      Log = (\<lambda>m w. w\<lparr>logged := logged w @ [m]\<rparr>)\<rparr>"

definition world0 :: World where
  "world0 = \<lparr>cursors = [], issued = 0, logged = []\<rparr>"

definition mkUser :: "string \<Rightarrow> int \<Rightarrow> string option \<Rightarrow> User" where
  "mkUser uid upd origin =
     \<lparr>User.Id = uid, UpdateAt = upd, User.RemoteId = origin, Password = ''secret'',
      AuthData = Some ''ldap-dn'', AuthService = ''ldap'', Roles = ''system_admin'',
      AllowMarketing = True, Props = [''k'' \<mapsto> ''v''], NotifyProps = [''email'' \<mapsto> ''true''],
      LastPasswordUpdate = 7, LastPictureUpdate = 8, FailedAttempts = 2,
      MfaActive = True, MfaSecret = ''mfa''\<rparr>"

definition mkPost :: "string \<Rightarrow> string \<Rightarrow> int \<Rightarrow> int \<Rightarrow> string option \<Rightarrow> Post" where
  "mkPost pid uid edit del origin =
     \<lparr>Post.Id = pid, Post.ChannelId = ''chan'', Post.UserId = uid, Message = ''hello'',
      EditAt = edit, DeleteAt = del, Post.RemoteId = origin\<rparr>"

definition demoService :: "(World, unit, unit, unit, unit, string) Service" where
  "demoService = memService
     [(''u1'', mkUser ''u1'' 5 None), (''u2'', mkUser ''u2'' 5 (Some ''r1'')),
      (''u3'', mkUser ''u3'' 5 None)]
     [(''b'', [\<lparr>Reaction.UserId = ''u2''\<rparr>, \<lparr>Reaction.UserId = ''u1''\<rparr>,
               \<lparr>Reaction.UserId = ''u3''\<rparr>])]
     [''s''] [''x'']"

definition demoRemote :: RemoteCluster where
  "demoRemote = \<lparr>RemoteCluster.RemoteId = ''r1''\<rparr>"

definition demoPosts :: "Post list" where
  "demoPosts = [mkPost ''a'' ''u1'' 0 0 None, mkPost ''s'' ''u1'' 0 0 None,
                mkPost ''b'' ''u1'' 50 0 None, mkPost ''c'' ''u1'' 0 0 (Some ''r1'')]"

definition demoMsgs :: "(unit, unit, unit, string) syncMsg list" where
  "demoMsgs =
     [\<lparr>ChannelId = ''chan'', PostId = ''a'', Post = Some (mkPost ''a'' ''u1'' 0 0 None),
       Users = [fst (sanitizeUserForSync demoService (mkUser ''u1'' 5 None) world0)],
       Reactions = [], Attachments = []\<rparr>,
      \<lparr>ChannelId = ''chan'', PostId = ''b'', Post = None,
       Users = [fst (sanitizeUserForSync demoService (mkUser ''u3'' 5 None) (world0\<lparr>issued := 1\<rparr>))],
       Reactions = [\<lparr>Reaction.UserId = ''u2''\<rparr>, \<lparr>Reaction.UserId = ''u1''\<rparr>,
                    \<lparr>Reaction.UserId = ''u3''\<rparr>],
       Attachments = []\<rparr>]"

definition demoWorld :: World where
  "demoWorld =
     \<lparr>cursors = [\<lparr>SharedChannelUser.UserId = ''u3'', SharedChannelUser.RemoteId = ''r1'', LastSyncAt = 0\<rparr>,
                 \<lparr>SharedChannelUser.UserId = ''u1'', SharedChannelUser.RemoteId = ''r1'', LastSyncAt = 0\<rparr>],
      issued = 2, logged = []\<rparr>"


section \<open>Auxiliary facts\<close>

subsection \<open>The user gate and the scrubber\<close>

lemma sanitize_Id:
  "sanitizeUserForSync scs u w = (su, w') \<Longrightarrow>
     User.Id su = User.Id u \<and> User.RemoteId su = User.RemoteId u"
  by (auto simp add: sanitizeUserForSync_def split: prod.splits)

lemma shouldUserSync_origin:
  "shouldUserSync scs u rc w = ((True, e), w') \<Longrightarrow> User.RemoteId u \<noteq> Some (RemoteCluster.RemoteId rc)"
  by (auto simp add: shouldUserSync_def split: prod.splits sum.splits if_splits)

subsection \<open>The two loops of usersForPost\<close>

lemma users_step_cases:
  assumes "usersForPost_users scs rc (uid # ids) users w = (res, w')"
  obtains (skip) w2 where "usersForPost_users scs rc ids users w2 = (res, w')"
  | (add) u0 w1 w2 su w3 where "UserGet scs uid w = (Inr u0, w1)"
      "shouldUserSync scs u0 rc w1 = ((True, None), w2)"
      "sanitizeUserForSync scs u0 w2 = (su, w3)"
      "usersForPost_users scs rc ids (users @ [su]) w3 = (res, w')"
  using assms
  by (simp split: prod.splits sum.splits option.splits if_splits)

lemma users_loop_sel:
  assumes P: "\<And>uid wa u0 wb wc su wd. UserGet scs uid wa = (Inr u0, wb) \<Longrightarrow>
      shouldUserSync scs u0 rc wb = ((True, None), wc) \<Longrightarrow>
      sanitizeUserForSync scs u0 wc = (su, wd) \<Longrightarrow> P uid su"
    and "usersForPost_users scs rc ids users w = (res, w')"
  shows "\<exists>new sel. res = users @ new \<and> subseq sel ids \<and> list_all2 P sel new"
  using assms(2)
proof (induction ids arbitrary: users w)
  case Nil
  then show ?case by simp
next
  case (Cons uid ids)
  from Cons.prems show ?case
  proof (cases rule: users_step_cases)
    case (skip w2)
    from Cons.IH[OF skip] obtain new sel where
      "res = users @ new" "subseq sel ids" "list_all2 P sel new" by blast
    then have "res = users @ new \<and> subseq sel (uid # ids) \<and> list_all2 P sel new"
      by (simp add: list_emb_Cons)
    then show ?thesis by blast
  next
    case (add u0 w1 w2 su w3)
    from Cons.IH[OF add(4)] obtain new sel where
      n: "res = (users @ [su]) @ new" "subseq sel ids" "list_all2 P sel new" by blast
    have "P uid su" using P[OF add(1) add(2) add(3)] .
    with n have "res = users @ (su # new) \<and> subseq (uid # sel) (uid # ids) \<and> list_all2 P (uid # sel) (su # new)"
      by simp
    then show ?thesis by blast
  qed
qed


lemma ids_loop_sel:
  assumes "usersForPost_ids rs ids c = (ids', c')"
  shows "\<exists>new. ids' = ids @ new \<and> distinct new \<and> set new \<inter> c = {} \<and> c' = c \<union> set new"
  using assms
proof (induction rs arbitrary: ids c)
  case Nil
  then show ?case by simp
next
  case (Cons r rs)
  show ?case
  proof (cases "Has c (Reaction.UserId r)")
    case True
    with Cons.prems have "usersForPost_ids rs ids c = (ids', c')" by simp
    from Cons.IH[OF this] show ?thesis .
  next
    case False
    with Cons.prems have
      "usersForPost_ids rs (ids @ [Reaction.UserId r]) (Add c (Reaction.UserId r)) = (ids', c')"
      by simp
    from Cons.IH[OF this] obtain new where n: "ids' = (ids @ [Reaction.UserId r]) @ new"
      "distinct new" "set new \<inter> Add c (Reaction.UserId r) = {}"
      "c' = Add c (Reaction.UserId r) \<union> set new" by blast
    have "ids' = ids @ (Reaction.UserId r # new)" using n(1) by simp
    moreover have "distinct (Reaction.UserId r # new)" using n(2) n(3) by (auto simp: Add_def)
    moreover have "set (Reaction.UserId r # new) \<inter> c = {}"
      using n(3) False by (auto simp: Add_def Has_def)
    moreover have "c' = c \<union> set (Reaction.UserId r # new)" using n(4) by (auto simp: Add_def)
    ultimately show ?thesis by blast
  qed
qed



lemma usersForPost_first:
  "\<exists>ids0 c0. distinct ids0 \<and> set ids0 \<inter> c = {} \<and> c0 = c \<union> set ids0 \<and>
     usersForPost scs post rs rc c w =
       (case usersForPost_ids rs ids0 c0 of
          (userIds, uCache1) \<Rightarrow>
            (case usersForPost_users scs rc userIds [] w of
               (users, w1) \<Rightarrow> (users, uCache1, w1)))"
proof (cases post)
  case None
  show ?thesis
    by (rule exI[of _ "[]"], rule exI[of _ c]) (simp add: usersForPost_def None)
next
  case (Some p)
  show ?thesis
  proof (cases "Has c (Post.UserId p)")
    case True
    show ?thesis
      by (rule exI[of _ "[]"], rule exI[of _ c]) (simp add: usersForPost_def Some True)
  next
    case False
    then have "Post.UserId p \<notin> c" by (simp add: Has_def)
    then show ?thesis
      by (intro exI[of _ "[Post.UserId p]"] exI[of _ "Add c (Post.UserId p)"])
         (simp add: usersForPost_def Some False Add_def)
  qed
qed

lemma usersForPost_ids_split:
  assumes "usersForPost scs post rs rc c w = (users, c', w')"
  obtains ids where "distinct ids" "set ids \<inter> c = {}" "c' = c \<union> set ids"
    "usersForPost_users scs rc ids [] w = (users, w')"
proof -
  from usersForPost_first[of c scs post rs rc w] obtain ids0 c0 where
    p0: "distinct ids0" "set ids0 \<inter> c = {}" "c0 = c \<union> set ids0" and
    e: "usersForPost scs post rs rc c w =
       (case usersForPost_ids rs ids0 c0 of
          (userIds, uCache1) \<Rightarrow>
            (case usersForPost_users scs rc userIds [] w of
               (users, w1) \<Rightarrow> (users, uCache1, w1)))" by blast
  obtain ids c1 where i1: "usersForPost_ids rs ids0 c0 = (ids, c1)" by (cases "usersForPost_ids rs ids0 c0")
  from assms e i1 have u: "usersForPost_users scs rc ids [] w = (users, w')" and c1: "c' = c1"
    by (simp_all split: prod.splits)
  from ids_loop_sel[OF i1] obtain new where n: "ids = ids0 @ new" "distinct new"
    "set new \<inter> c0 = {}" "c1 = c0 \<union> set new" by blast
  have "distinct ids" using n p0 by auto
  moreover have "set ids \<inter> c = {}" using n p0 by auto
  moreover have "c' = c \<union> set ids" using n p0 c1 by auto
  ultimately show ?thesis using u that by blast
qed

subsection \<open>The body of the loop over the posts\<close>

lemma post_cases:
  assumes "postsToSyncMessages_post scs p rc T c w = (r, c', w')"
  obtains (system) "IsSystemMessage scs p" "r = Inr None" "c' = c" "w' = w"
  | (abort) err where "\<not> IsSystemMessage scs p"
      "GetForPostSince scs (Post.Id p) T (RemoteCluster.RemoteId rc) True w = (Inl err, w')"
      "r = Inl err"
  | (run) rs w1 postSync atts w4 users where "\<not> IsSystemMessage scs p"
      "GetForPostSince scs (Post.Id p) T (RemoteCluster.RemoteId rc) True w = (Inr rs, w1)"
      "postSync =
         (if (EditAt p > 0 \<and> EditAt p < T \<and> DeleteAt p = 0)
             \<or> (Post.RemoteId p \<noteq> None \<and> the (Post.RemoteId p) = RemoteCluster.RemoteId rc)
          then None
          else Some (p\<lparr>Message := fst (processPermalinkToRemote scs p w1)\<rparr>))"
      "postSync = None \<Longrightarrow> atts = [] \<and> w4 = w1"
      "usersForPost scs postSync rs rc c w4 = (users, c', w')"
      "r = (if postSync = None \<and> rs = [] \<and> users = [] then Inr None
            else Inr (Some \<lparr>ChannelId = Post.ChannelId p, PostId = Post.Id p, Post = postSync,
                             Users = users, Reactions = rs, Attachments = atts\<rparr>))"
proof (cases "IsSystemMessage scs p")
  case True
  with assms have "r = Inr None" "c' = c" "w' = w"
    by (simp_all add: postsToSyncMessages_post_def)
  with True show ?thesis by (rule system)
next
  case False
  obtain r0 w1 where g: "GetForPostSince scs (Post.Id p) T (RemoteCluster.RemoteId rc) True w = (r0, w1)"
    by (cases "GetForPostSince scs (Post.Id p) T (RemoteCluster.RemoteId rc) True w")
  show ?thesis
  proof (cases r0)
    case (Inl err)
    with assms False g have "r = Inl err" "w' = w1"
      by (simp_all add: postsToSyncMessages_post_def)
    with False g Inl show ?thesis using abort by blast
  next
    case (Inr rs)
    define omit where "omit \<longleftrightarrow> (EditAt p > 0 \<and> EditAt p < T \<and> DeleteAt p = 0)
             \<or> (Post.RemoteId p \<noteq> None \<and> the (Post.RemoteId p) = RemoteCluster.RemoteId rc)"
    define enrich where "enrich =
       (case (if omit then None else Some p) of
                         None \<Rightarrow> (None, [], w1)
                       | Some ps \<Rightarrow>
                           (case processPermalinkToRemote scs ps w1 of
                              (msg, w2) \<Rightarrow>
                                (case postToAttachments scs (ps\<lparr>Message := msg\<rparr>) rc T w2 of
                                   ((attachments, None), w3) \<Rightarrow>
                                     (Some (ps\<lparr>Message := msg\<rparr>), attachments, w3)
                                 | ((attachments, Some err), w3) \<Rightarrow>
                                     (Some (ps\<lparr>Message := msg\<rparr>), attachments,
                                      Log scs ''Could not fetch attachments for post'' w3))))"
    obtain postSync atts w4 where e: "enrich = (postSync, atts, w4)" by (cases enrich)
    have ps: "postSync = (if omit then None
          else Some (p\<lparr>Message := fst (processPermalinkToRemote scs p w1)\<rparr>))"
      using e unfolding enrich_def
      by (cases omit) (auto split: prod.splits option.splits)
    have pn: "postSync = None \<Longrightarrow> atts = [] \<and> w4 = w1"
      using e unfolding enrich_def
      by (cases omit) (auto split: prod.splits option.splits)
    obtain users c1 w5 where u: "usersForPost scs postSync rs rc c w4 = (users, c1, w5)"
      by (cases "usersForPost scs postSync rs rc c w4")
    have body: "postsToSyncMessages_post scs p rc T c w =
       (case enrich of (postSync, attachments, w4) \<Rightarrow>
                     (case usersForPost scs postSync rs rc c w4 of
                        (users, uCache1, w5) \<Rightarrow>
                          if postSync = None \<and> length rs = 0 \<and> length users = 0
                          then (Inr None, uCache1, w5)
                          else (Inr (Some \<lparr>ChannelId = Post.ChannelId p,
                                            PostId = Post.Id p,
                                            Post = postSync,
                                            Users = users,
                                            Reactions = rs,
                                            Attachments = attachments\<rparr>), uCache1, w5)))"
    proof -
      have h: "(if Post.RemoteId p \<noteq> None \<and> the (Post.RemoteId p) = RemoteCluster.RemoteId rc
                     then None else (if EditAt p > 0 \<and> EditAt p < T \<and> DeleteAt p = 0 then None else Some p))
               = (if omit then None else Some p)"
        unfolding omit_def by simp
      show ?thesis
        unfolding postsToSyncMessages_post_def Let_def h enrich_def
        using False g Inr by (simp split: prod.splits)
    qed
    define emp where "emp \<longleftrightarrow> postSync = None \<and> rs = [] \<and> users = []"
    from assms body e u have eq:
      "(if emp
        then (Inr None, c1, w5)
        else (Inr (Some \<lparr>ChannelId = Post.ChannelId p, PostId = Post.Id p, Post = postSync,
                             Users = users, Reactions = rs, Attachments = atts\<rparr>), c1, w5))
       = (r, c', w')"
      unfolding emp_def by simp
    have cw: "c' = c1 \<and> w' = w5"
      using eq by (cases emp) simp_all
    have rr: "r = (if emp then Inr None
            else Inr (Some \<lparr>ChannelId = Post.ChannelId p, PostId = Post.Id p, Post = postSync,
                             Users = users, Reactions = rs, Attachments = atts\<rparr>))"
      using eq by (cases emp) simp_all
    have g': "GetForPostSince scs (Post.Id p) T (RemoteCluster.RemoteId rc) True w = (Inr rs, w1)"
      using g Inr by simp
    have u': "usersForPost scs postSync rs rc c w4 = (users, c', w')"
      using u cw by simp
    show ?thesis
      by (rule run[OF False g' ps[unfolded omit_def] pn u' rr[unfolded emp_def]])
  qed
qed

subsection \<open>The loop over the posts\<close>

lemma loop_step_cases:
  assumes "postsToSyncMessages_loop scs rc T (p # posts) acc c w = (res, w')"
  obtains (abort) err c1 where "postsToSyncMessages_post scs p rc T c w = (Inl err, c1, w')"
      "res = Inl err"
  | (skip) c1 w1 where "postsToSyncMessages_post scs p rc T c w = (Inr None, c1, w1)"
      "postsToSyncMessages_loop scs rc T posts acc c1 w1 = (res, w')"
  | (emit) m c1 w1 where "postsToSyncMessages_post scs p rc T c w = (Inr (Some m), c1, w1)"
      "postsToSyncMessages_loop scs rc T posts (acc @ [m]) c1 w1 = (res, w')"
proof -
  obtain r c1 w1 where b: "postsToSyncMessages_post scs p rc T c w = (r, c1, w1)"
    by (cases "postsToSyncMessages_post scs p rc T c w")
  show ?thesis
  proof (cases r)
    case (Inl err)
    with assms b have "res = Inl err" "w' = w1" by simp_all
    with b Inl show ?thesis using abort by simp
  next
    case (Inr x)
    show ?thesis
    proof (cases x)
      case None
      with assms b Inr have "postsToSyncMessages_loop scs rc T posts acc c1 w1 = (res, w')"
        by simp
      with b Inr None show ?thesis using skip by simp
    next
      case (Some m)
      with assms b Inr have "postsToSyncMessages_loop scs rc T posts (acc @ [m]) c1 w1 = (res, w')"
        by simp
      with b Inr Some show ?thesis using emit by simp
    qed
  qed
qed

lemma loop_sel:
  assumes R: "\<And>p c w m c' w1.
      postsToSyncMessages_post scs p rc T c w = (Inr (Some m), c', w1) \<Longrightarrow> R p m"
    and "postsToSyncMessages_loop scs rc T posts acc c w = (Inr msgs, w')"
  shows "\<exists>new src. msgs = acc @ new \<and> subseq src posts \<and> list_all2 R src new"
  using assms(2)
proof (induction posts arbitrary: acc c w)
  case Nil
  then show ?case by simp
next
  case (Cons p posts)
  from Cons.prems show ?case
  proof (cases rule: loop_step_cases)
    case (abort err c1)
    then show ?thesis by simp
  next
    case (skip c1 w1)
    from Cons.IH[OF skip(2)] obtain new src where
      "msgs = acc @ new" "subseq src posts" "list_all2 R src new" by blast
    then have "msgs = acc @ new \<and> subseq src (p # posts) \<and> list_all2 R src new"
      by (simp add: list_emb_Cons)
    then show ?thesis by blast
  next
    case (emit m c1 w1)
    from Cons.IH[OF emit(2)] obtain new src where
      n: "msgs = (acc @ [m]) @ new" "subseq src posts" "list_all2 R src new" by blast
    have "R p m" using R[OF emit(1)] .
    with n have "msgs = acc @ (m # new) \<and> subseq (p # src) (p # posts) \<and> list_all2 R (p # src) (m # new)"
      by simp
    then show ?thesis by blast
  qed
qed

lemma postsToSyncMessages_sel:
  assumes R: "\<And>p c w m c' w1.
      postsToSyncMessages_post scs p rc T c w = (Inr (Some m), c', w1) \<Longrightarrow> R p m"
    and "postsToSyncMessages scs posts rc T w = (Inr msgs, w')"
  shows "\<exists>src. subseq src posts \<and> list_all2 R src msgs"
proof -
  from assms(2) have "postsToSyncMessages_loop scs rc T posts [] {} w = (Inr msgs, w')"
    by (simp add: postsToSyncMessages_def)
  from loop_sel[of scs rc T R, OF R this] show ?thesis by simp
qed

subsection \<open>The ids of the users of a batch\<close>

lemma subseq_set_mono: "subseq xs ys \<Longrightarrow> set xs \<subseteq> set ys"
  by (induction rule: list_emb.induct) auto

lemma subseq_keeps_distinct: "subseq xs ys \<Longrightarrow> distinct ys \<Longrightarrow> distinct xs"
proof (induction rule: list_emb.induct)
  case (list_emb_Cons2 x y xs ys)
  then show ?case using subseq_set_mono[of xs ys] by auto
qed auto

lemma list_all2_Id_map:
  "list_all2 (\<lambda>uid su. User.Id su = uid) sel us \<Longrightarrow> map User.Id us = sel"
  by (induction rule: list_all2_induct) auto

lemma usersForPost_user_ids:
  assumes contract: "\<forall>uid wa u0 wb. UserGet scs uid wa = (Inr u0, wb) \<longrightarrow> User.Id u0 = uid"
    and u: "usersForPost scs post rs rc c w = (users, c', w')"
  shows "c \<subseteq> c' \<and> distinct (map User.Id users) \<and> set (map User.Id users) \<inter> c = {}
     \<and> set (map User.Id users) \<subseteq> c'"
proof -
  from u obtain ids where i: "distinct ids" "set ids \<inter> c = {}" "c' = c \<union> set ids"
    "usersForPost_users scs rc ids [] w = (users, w')"
    by (rule usersForPost_ids_split)
  have P: "\<And>uid wa u0 wb wc su wd. UserGet scs uid wa = (Inr u0, wb) \<Longrightarrow>
      shouldUserSync scs u0 rc wb = ((True, None), wc) \<Longrightarrow>
      sanitizeUserForSync scs u0 wc = (su, wd) \<Longrightarrow> User.Id su = uid"
    using contract sanitize_Id by metis
  have "\<exists>new sel. users = [] @ new \<and> subseq sel ids
      \<and> list_all2 (\<lambda>uid su. User.Id su = uid) sel new"
    by (rule users_loop_sel[where P = "\<lambda>uid su. User.Id su = uid", OF P i(4)])
  then obtain sel where s: "subseq sel ids" "list_all2 (\<lambda>uid su. User.Id su = uid) sel users"
    by auto
  have m: "map User.Id users = sel" using s(2) by (rule list_all2_Id_map)
  have "distinct sel" using s(1) i(1) by (rule subseq_keeps_distinct)
  moreover have "set sel \<subseteq> set ids" using s(1) by (rule subseq_set_mono)
  ultimately show ?thesis using m i(2) i(3) by auto
qed

lemma post_user_ids:
  assumes contract: "\<forall>uid wa u0 wb. UserGet scs uid wa = (Inr u0, wb) \<longrightarrow> User.Id u0 = uid"
    and b: "postsToSyncMessages_post scs p rc T c w = (Inr x, c', w')"
  shows "c \<subseteq> c'"
    and "x = Some m \<Longrightarrow> distinct (map User.Id (Users m)) \<and> set (map User.Id (Users m)) \<inter> c = {}
       \<and> set (map User.Id (Users m)) \<subseteq> c'"
proof -
  have "c \<subseteq> c' \<and> (x = Some m \<longrightarrow> distinct (map User.Id (Users m)) \<and> set (map User.Id (Users m)) \<inter> c = {}
       \<and> set (map User.Id (Users m)) \<subseteq> c')"
    using b
  proof (cases rule: post_cases)
    case system
    then show ?thesis by simp
  next
    case (abort err)
    then show ?thesis by simp
  next
    case (run rs w1 postSync atts w4 users)
    note f = usersForPost_user_ids[OF contract run(5)]
    have "x = Some m \<Longrightarrow> Users m = users"
      using run(6) by (simp split: if_splits)
    with f show ?thesis by blast
  qed
  then show "c \<subseteq> c'"
    and "x = Some m \<Longrightarrow> distinct (map User.Id (Users m)) \<and> set (map User.Id (Users m)) \<inter> c = {}
       \<and> set (map User.Id (Users m)) \<subseteq> c'" by simp_all
qed

lemma loop_user_ids_distinct:
  assumes contract: "\<forall>uid wa u0 wb. UserGet scs uid wa = (Inr u0, wb) \<longrightarrow> User.Id u0 = uid"
    and "postsToSyncMessages_loop scs rc T posts acc c w = (Inr msgs, w')"
    and "distinct (concat (map (\<lambda>m. map User.Id (Users m)) acc))"
    and "set (concat (map (\<lambda>m. map User.Id (Users m)) acc)) \<subseteq> c"
  shows "distinct (concat (map (\<lambda>m. map User.Id (Users m)) msgs))"
  using assms(2-)
proof (induction posts arbitrary: acc c w)
  case Nil
  then show ?case by simp
next
  case (Cons p posts)
  from Cons.prems(1) show ?case
  proof (cases rule: loop_step_cases)
    case (abort err c1)
    then show ?thesis by simp
  next
    case (skip c1 w1)
    have "c \<subseteq> c1" using post_user_ids(1)[OF contract skip(1)] .
    with Cons.prems(3) have "set (concat (map (\<lambda>m. map User.Id (Users m)) acc)) \<subseteq> c1" by blast
    from Cons.IH[OF skip(2) Cons.prems(2) this] show ?thesis .
  next
    case (emit m c1 w1)
    have s: "c \<subseteq> c1" using post_user_ids(1)[OF contract emit(1)] .
    have d: "distinct (map User.Id (Users m)) \<and> set (map User.Id (Users m)) \<inter> c = {}
       \<and> set (map User.Id (Users m)) \<subseteq> c1"
      using post_user_ids(2)[OF contract emit(1)] by simp
    have 1: "distinct (concat (map (\<lambda>m. map User.Id (Users m)) (acc @ [m])))"
      using Cons.prems(2,3) d by auto
    have 2: "set (concat (map (\<lambda>m. map User.Id (Users m)) (acc @ [m]))) \<subseteq> c1"
      using Cons.prems(3) d s by auto
    from Cons.IH[OF emit(2) 1 2] show ?thesis .
  qed
qed

subsection \<open>What every emitted unit satisfies\<close>

lemma list_all2_right_all: "list_all2 (\<lambda>a b. Q b) xs ys \<Longrightarrow> \<forall>b\<in>set ys. Q b"
  by (induction rule: list_all2_induct) auto

lemma post_users_prop:
  assumes P: "\<And>uid wa u0 wb wc su wd. UserGet scs uid wa = (Inr u0, wb) \<Longrightarrow>
      shouldUserSync scs u0 rc wb = ((True, None), wc) \<Longrightarrow>
      sanitizeUserForSync scs u0 wc = (su, wd) \<Longrightarrow> Q su"
    and b: "postsToSyncMessages_post scs p rc T c w = (Inr (Some m), c', w1)"
  shows "\<forall>su\<in>set (Users m). Q su"
  using b
proof (cases rule: post_cases)
  case system
  then show ?thesis by simp
next
  case (abort err)
  then show ?thesis by simp
next
  case (run rs wa postSync atts w4 users)
  from run(5) obtain ids where "distinct ids" "set ids \<inter> c = {}" "c' = c \<union> set ids"
    and i: "usersForPost_users scs rc ids [] w4 = (users, w1)"
    by (rule usersForPost_ids_split)
  have "\<exists>new sel. users = [] @ new \<and> subseq sel ids \<and> list_all2 (\<lambda>uid su. Q su) sel new"
    by (rule users_loop_sel[where P = "\<lambda>uid su. Q su", OF P i])
  then have "\<exists>sel. subseq sel ids \<and> list_all2 (\<lambda>uid su. Q su) sel users" by simp
  then have "\<forall>su\<in>set users. Q su"
    by (elim exE conjE) (rule list_all2_right_all[where Q = Q])
  moreover have "Users m = users" using run(6) by (simp split: if_splits)
  ultimately show ?thesis by simp
qed

lemma emitted_users:
  assumes P: "\<And>uid wa u0 wb wc su wd. UserGet scs uid wa = (Inr u0, wb) \<Longrightarrow>
      shouldUserSync scs u0 rc wb = ((True, None), wc) \<Longrightarrow>
      sanitizeUserForSync scs u0 wc = (su, wd) \<Longrightarrow> Q su"
    and r: "postsToSyncMessages scs posts rc T w = (Inr msgs, w')"
  shows "\<forall>m\<in>set msgs. \<forall>su\<in>set (Users m). Q su"
proof -
  have R: "\<And>p c w m c' w1.
      postsToSyncMessages_post scs p rc T c w = (Inr (Some m), c', w1) \<Longrightarrow>
      \<forall>su\<in>set (Users m). Q su"
    by (rule post_users_prop[where Q = Q and scs = scs and rc = rc, OF P])
  have "\<exists>src. subseq src posts \<and> list_all2 (\<lambda>p m. \<forall>su\<in>set (Users m). Q su) src msgs"
    by (rule postsToSyncMessages_sel[where R = "\<lambda>p m. \<forall>su\<in>set (Users m). Q su", OF R r])
  then show ?thesis
    by (elim exE conjE) (rule list_all2_right_all[where Q = "\<lambda>m. \<forall>su\<in>set (Users m). Q su"])
qed

lemma post_unit_shape:
  assumes "postsToSyncMessages_post scs p rc T c w = (Inr (Some m), c', w1)"
  shows "ChannelId m = Post.ChannelId p \<and> PostId m = Post.Id p
     \<and> (\<exists>msg. Post m = (if (EditAt p > 0 \<and> EditAt p < T \<and> DeleteAt p = 0)
                     \<or> (Post.RemoteId p \<noteq> None \<and> the (Post.RemoteId p) = RemoteCluster.RemoteId rc)
                  then None
                  else Some (p\<lparr>Message := msg\<rparr>)))
     \<and> \<not> (Post m = None \<and> Users m = [] \<and> Reactions m = [])"
  using assms
proof (cases rule: post_cases)
  case system
  then show ?thesis by simp
next
  case (abort err)
  then show ?thesis by simp
next
  case (run rs wa postSync atts w4 users)
  define emp where "emp \<longleftrightarrow> postSync = None \<and> rs = [] \<and> users = []"
  have r: "(Inr (Some m) :: error + _) = (if emp then Inr None
            else Inr (Some \<lparr>ChannelId = Post.ChannelId p, PostId = Post.Id p, Post = postSync,
                             Users = users, Reactions = rs, Attachments = atts\<rparr>))"
    unfolding emp_def by (rule run(6))
  have e: "\<not> emp" using r by (cases emp) simp_all
  have m: "m = \<lparr>ChannelId = Post.ChannelId p, PostId = Post.Id p, Post = postSync,
                             Users = users, Reactions = rs, Attachments = atts\<rparr>"
    using r e by simp
  have 1: "ChannelId m = Post.ChannelId p" "PostId m = Post.Id p" unfolding m by simp_all
  have 2: "Post m = postSync" "Users m = users" "Reactions m = rs" unfolding m by simp_all
  have 3: "\<not> (Post m = None \<and> Users m = [] \<and> Reactions m = [])"
    using e unfolding 2 emp_def by blast
  have 4: "\<exists>msg. Post m = (if (EditAt p > 0 \<and> EditAt p < T \<and> DeleteAt p = 0)
                     \<or> (Post.RemoteId p \<noteq> None \<and> the (Post.RemoteId p) = RemoteCluster.RemoteId rc)
                  then None
                  else Some (p\<lparr>Message := msg\<rparr>))"
    unfolding 2(1) using run(3) by (intro exI[of _ "fst (processPermalinkToRemote scs p wa)"])
  show ?thesis using 1 3 4 by (intro conjI)
qed

subsection \<open>Skipped users and aborted batches\<close>



lemma loop_prefix_abort:
  assumes "postsToSyncMessages_loop scs rc T pre acc c w = (Inr msgs, w1)"
    and "\<not> IsSystemMessage scs p"
    and "GetForPostSince scs (Post.Id p) T (RemoteCluster.RemoteId rc) True w1 = (Inl err, w2)"
  shows "postsToSyncMessages_loop scs rc T (pre @ p # rest) acc c w = (Inl err, w2)"
  using assms(1)
proof (induction pre arbitrary: acc c w)
  case Nil
  then have "w1 = w" by simp
  with assms(2,3) show ?case by (simp add: postsToSyncMessages_post_def)
next
  case (Cons q pre)
  from Cons.prems show ?case
  proof (cases rule: loop_step_cases)
    case (abort e c1)
    then show ?thesis by simp
  next
    case (skip c1 wa)
    from Cons.IH[OF skip(2)] skip(1) show ?thesis by simp
  next
    case (emit m c1 wa)
    from Cons.IH[OF emit(2)] emit(1) show ?thesis by simp
  qed
qed

subsection \<open>The cache after usersForPost\<close>

lemma ids_loop_cache:
  "usersForPost_ids rs ids c = (ids', c') \<Longrightarrow> c' = c \<union> Reaction.UserId ` set rs"
proof (induction rs arbitrary: ids c)
  case Nil
  then show ?case by simp
next
  case (Cons r rs)
  show ?case
  proof (cases "Has c (Reaction.UserId r)")
    case True
    with Cons.prems have "usersForPost_ids rs ids c = (ids', c')" by simp
    from Cons.IH[OF this] True show ?thesis by (auto simp: Has_def)
  next
    case False
    with Cons.prems have
      "usersForPost_ids rs (ids @ [Reaction.UserId r]) (Add c (Reaction.UserId r)) = (ids', c')"
      by simp
    from Cons.IH[OF this] show ?thesis by (auto simp: Add_def)
  qed
qed

lemma usersForPost_cache:
  "fst (snd (usersForPost scs post rs rc c w)) =
     c \<union> set_option (map_option Post.UserId post) \<union> Reaction.UserId ` set rs"
proof -
  have *: "fst (snd (case usersForPost_ids rs ids0 c0 of
                       (userIds, uCache1) \<Rightarrow>
                         (case usersForPost_users scs rc userIds [] w of
                            (users, w1) \<Rightarrow> (users, uCache1, w1))))
           = c0 \<union> Reaction.UserId ` set rs" for ids0 c0
  proof -
    obtain ids c1 where i1: "usersForPost_ids rs ids0 c0 = (ids, c1)"
      by (cases "usersForPost_ids rs ids0 c0")
    from ids_loop_cache[OF i1] i1 show ?thesis by (simp split: prod.splits)
  qed
  show ?thesis
  proof (cases post)
    case None
    then show ?thesis by (simp add: usersForPost_def *)
  next
    case (Some p)
    show ?thesis
    proof (cases "Has c (Post.UserId p)")
      case True
      then have "Post.UserId p \<in> c" by (simp add: Has_def)
      then have "c \<union> {Post.UserId p} = c" by auto
      with Some True show ?thesis by (simp add: usersForPost_def *)
    next
      case False
      with Some show ?thesis by (simp add: usersForPost_def * Add_def)
    qed
  qed
qed

subsection \<open>What every post of a batch yields\<close>

lemma loop_outs:
  assumes R: "\<And>p c w out c' w1.
      postsToSyncMessages_post scs p rc T c w = (Inr out, c', w1) \<Longrightarrow> R p out"
    and "postsToSyncMessages_loop scs rc T posts acc c w = (Inr msgs, w')"
  shows "\<exists>outs. msgs = acc @ List.map_filter (\<lambda>out. out) outs \<and> list_all2 R posts outs"
  using assms(2)
proof (induction posts arbitrary: acc c w)
  case Nil
  then show ?case by (simp add: List.map_filter_simps)
next
  case (Cons p posts)
  from Cons.prems show ?case
  proof (cases rule: loop_step_cases)
    case (abort err c1)
    then show ?thesis by simp
  next
    case (skip c1 w1)
    from Cons.IH[OF skip(2)] obtain outs where
      o: "msgs = acc @ List.map_filter (\<lambda>out. out) outs" "list_all2 R posts outs" by blast
    have "R p None" using R[OF skip(1)] .
    with o have "msgs = acc @ List.map_filter (\<lambda>out. out) (None # outs)
        \<and> list_all2 R (p # posts) (None # outs)"
      by (simp add: List.map_filter_simps)
    then show ?thesis by blast
  next
    case (emit m c1 w1)
    from Cons.IH[OF emit(2)] obtain outs where
      o: "msgs = (acc @ [m]) @ List.map_filter (\<lambda>out. out) outs" "list_all2 R posts outs" by blast
    have "R p (Some m)" using R[OF emit(1)] .
    with o have "msgs = acc @ List.map_filter (\<lambda>out. out) (Some m # outs)
        \<and> list_all2 R (p # posts) (Some m # outs)"
      by (simp add: List.map_filter_simps)
    then show ?thesis by blast
  qed
qed

lemma post_out_shape:
  assumes "postsToSyncMessages_post scs p rc T c w = (Inr out, c', w1)"
  shows "(IsSystemMessage scs p \<longrightarrow> out = None)
     \<and> (\<not> IsSystemMessage scs p \<longrightarrow>
          (if (EditAt p > 0 \<and> EditAt p < T \<and> DeleteAt p = 0)
               \<or> (Post.RemoteId p \<noteq> None \<and> the (Post.RemoteId p) = RemoteCluster.RemoteId rc)
           then \<forall>m. out = Some m \<longrightarrow> PostId m = Post.Id p \<and> Post m = None
           else \<exists>m msg. out = Some m \<and> PostId m = Post.Id p \<and> Post m = Some (p\<lparr>Message := msg\<rparr>)))"
  using assms
proof (cases rule: post_cases)
  case system
  then show ?thesis by simp
next
  case (abort err)
  then show ?thesis by simp
next
  case (run rs wa postSync atts w4 users)
  define omit where "omit \<longleftrightarrow> (EditAt p > 0 \<and> EditAt p < T \<and> DeleteAt p = 0)
               \<or> (Post.RemoteId p \<noteq> None \<and> the (Post.RemoteId p) = RemoteCluster.RemoteId rc)"
  define emp where "emp \<longleftrightarrow> postSync = None \<and> rs = [] \<and> users = []"
  define sm where "sm = \<lparr>ChannelId = Post.ChannelId p, PostId = Post.Id p, Post = postSync,
                             Users = users, Reactions = rs, Attachments = atts\<rparr>"
  have r: "(Inr out :: error + _) = (if emp then Inr None else Inr (Some sm))"
    unfolding emp_def sm_def by (rule run(6))
  have ps: "postSync = (if omit then None
      else Some (p\<lparr>Message := fst (processPermalinkToRemote scs p wa)\<rparr>))"
    unfolding omit_def by (rule run(3))
  have o: "out = (if emp then None else Some sm)" using r by (cases emp) simp_all
  have s: "PostId sm = Post.Id p" "Post sm = postSync" unfolding sm_def by simp_all
  have main: "(IsSystemMessage scs p \<longrightarrow> out = None)
     \<and> (\<not> IsSystemMessage scs p \<longrightarrow>
          (if omit
           then \<forall>m. out = Some m \<longrightarrow> PostId m = Post.Id p \<and> Post m = None
           else \<exists>m msg. out = Some m \<and> PostId m = Post.Id p \<and> Post m = Some (p\<lparr>Message := msg\<rparr>)))"
  proof (cases omit)
    case True
    then have "postSync = None" using ps by simp
    then have "\<forall>m. out = Some m \<longrightarrow> PostId m = Post.Id p \<and> Post m = None"
      using o s by (cases emp) simp_all
    with True run(1) show ?thesis by simp
  next
    case False
    then have p: "postSync = Some (p\<lparr>Message := fst (processPermalinkToRemote scs p wa)\<rparr>)"
      using ps by simp
    then have "\<not> emp" unfolding emp_def by simp
    then have "out = Some sm" using o by simp
    then have "\<exists>m msg. out = Some m \<and> PostId m = Post.Id p \<and> Post m = Some (p\<lparr>Message := msg\<rparr>)"
      using s p by (intro exI[of _ sm] exI[of _ "fst (processPermalinkToRemote scs p wa)"]) simp
    with False run(1) show ?thesis by simp
  qed
  show ?thesis using main unfolding omit_def .
qed

subsection \<open>The ids that usersForPost looks up\<close>









subsection \<open>Running the in-memory instance\<close>

lemmas demo_defs = demoService_def demoRemote_def demoPosts_def memService_def mkPost_def mkUser_def
  world0_def postsToSyncMessages_def postsToSyncMessages_post_def usersForPost_def
  shouldUserSync_def sanitizeUserForSync_def Has_def Add_def

lemma demo_run:
  "postsToSyncMessages demoService demoPosts demoRemote 100 world0 = (Inr demoMsgs, demoWorld)"
  by (simp add: demo_defs demoMsgs_def demoWorld_def)

lemma demo_userstore:
  "\<forall>uid wa u0 wb. UserGet demoService uid wa = (Inr u0, wb) \<longrightarrow> User.Id u0 = uid"
  by (auto simp: demoService_def memService_def mkUser_def split: option.splits if_splits)


section \<open>The claims\<close>

subsection \<open>C1: when the post body is sent\<close>

text \<open>
  C1, as the code has it. In a call of \<^verbatim>\<open>postsToSyncMessages\<close> that returns no error,
  every post of the input yields at most one unit, and the units returned are those, in
  the order of the posts. A system message yields none. For every other post: if
  (\<^verbatim>\<open>EditAt <= 0\<close>, or \<^verbatim>\<open>EditAt >= nextSyncAt\<close>, or
  \<^verbatim>\<open>DeleteAt != 0\<close>) and the post's \<^verbatim>\<open>RemoteId\<close> is not the remote's id, it
  yields a unit, with its id, whose \<^verbatim>\<open>Post\<close> field is the post itself with the message
  rewritten; otherwise a unit it yields has its id and a \<^verbatim>\<open>nil\<close> \<^verbatim>\<open>Post\<close>
  field. For a post whose \<^verbatim>\<open>EditAt\<close> and \<^verbatim>\<open>DeleteAt\<close> are not negative the
  same holds with the condition (\<^verbatim>\<open>EditAt == 0\<close>, or
  \<^verbatim>\<open>EditAt >= nextSyncAt\<close>, or \<^verbatim>\<open>DeleteAt > 0\<close>).
\<close>

theorem post_body_included_iff:
  assumes "postsToSyncMessages scs posts rc T w = (Inr msgs, w')"
  shows "\<exists>outs. msgs = List.map_filter (\<lambda>out. out) outs \<and>
     list_all2 (\<lambda>p out.
         (IsSystemMessage scs p \<longrightarrow> out = None)
       \<and> (\<not> IsSystemMessage scs p \<longrightarrow>
            ((EditAt p \<le> 0 \<or> EditAt p \<ge> T \<or> DeleteAt p \<noteq> 0)
               \<and> Post.RemoteId p \<noteq> Some (RemoteCluster.RemoteId rc)
             \<longrightarrow> (\<exists>m msg. out = Some m \<and> PostId m = Post.Id p
                    \<and> Post m = Some (p\<lparr>Message := msg\<rparr>)))
          \<and> (\<not> ((EditAt p \<le> 0 \<or> EditAt p \<ge> T \<or> DeleteAt p \<noteq> 0)
                 \<and> Post.RemoteId p \<noteq> Some (RemoteCluster.RemoteId rc))
             \<longrightarrow> (\<forall>m. out = Some m \<longrightarrow> PostId m = Post.Id p \<and> Post m = None))
          \<and> (0 \<le> EditAt p \<and> 0 \<le> DeleteAt p \<longrightarrow>
               ((EditAt p = 0 \<or> EditAt p \<ge> T \<or> DeleteAt p > 0)
                  \<and> Post.RemoteId p \<noteq> Some (RemoteCluster.RemoteId rc)
                \<longrightarrow> (\<exists>m msg. out = Some m \<and> PostId m = Post.Id p
                       \<and> Post m = Some (p\<lparr>Message := msg\<rparr>)))
             \<and> (\<not> ((EditAt p = 0 \<or> EditAt p \<ge> T \<or> DeleteAt p > 0)
                    \<and> Post.RemoteId p \<noteq> Some (RemoteCluster.RemoteId rc))
                \<longrightarrow> (\<forall>m. out = Some m \<longrightarrow> PostId m = Post.Id p \<and> Post m = None)))))
       posts outs"
proof -
  have l: "postsToSyncMessages_loop scs rc T posts [] {} w = (Inr msgs, w')"
    using assms by (simp add: postsToSyncMessages_def)
  have "\<exists>outs. msgs = [] @ List.map_filter (\<lambda>out. out) outs \<and>
     list_all2 (\<lambda>p out.
         (IsSystemMessage scs p \<longrightarrow> out = None)
       \<and> (\<not> IsSystemMessage scs p \<longrightarrow>
            ((EditAt p \<le> 0 \<or> EditAt p \<ge> T \<or> DeleteAt p \<noteq> 0)
               \<and> Post.RemoteId p \<noteq> Some (RemoteCluster.RemoteId rc)
             \<longrightarrow> (\<exists>m msg. out = Some m \<and> PostId m = Post.Id p
                    \<and> Post m = Some (p\<lparr>Message := msg\<rparr>)))
          \<and> (\<not> ((EditAt p \<le> 0 \<or> EditAt p \<ge> T \<or> DeleteAt p \<noteq> 0)
                 \<and> Post.RemoteId p \<noteq> Some (RemoteCluster.RemoteId rc))
             \<longrightarrow> (\<forall>m. out = Some m \<longrightarrow> PostId m = Post.Id p \<and> Post m = None))
          \<and> (0 \<le> EditAt p \<and> 0 \<le> DeleteAt p \<longrightarrow>
               ((EditAt p = 0 \<or> EditAt p \<ge> T \<or> DeleteAt p > 0)
                  \<and> Post.RemoteId p \<noteq> Some (RemoteCluster.RemoteId rc)
                \<longrightarrow> (\<exists>m msg. out = Some m \<and> PostId m = Post.Id p
                       \<and> Post m = Some (p\<lparr>Message := msg\<rparr>)))
             \<and> (\<not> ((EditAt p = 0 \<or> EditAt p \<ge> T \<or> DeleteAt p > 0)
                    \<and> Post.RemoteId p \<noteq> Some (RemoteCluster.RemoteId rc))
                \<longrightarrow> (\<forall>m. out = Some m \<longrightarrow> PostId m = Post.Id p \<and> Post m = None)))))
       posts outs"
  proof (rule loop_outs[OF _ l])
    fix p c w out c' w1
    assume b: "postsToSyncMessages_post scs p rc T c w = (Inr out, c', w1)"
    define omit where "omit \<longleftrightarrow> (EditAt p > 0 \<and> EditAt p < T \<and> DeleteAt p = 0)
        \<or> (Post.RemoteId p \<noteq> None \<and> the (Post.RemoteId p) = RemoteCluster.RemoteId rc)"
    define sent where "sent \<longleftrightarrow>
        (\<exists>m msg. out = Some m \<and> PostId m = Post.Id p \<and> Post m = Some (p\<lparr>Message := msg\<rparr>))"
    define kept where "kept \<longleftrightarrow>
        (\<forall>m. out = Some m \<longrightarrow> PostId m = Post.Id p \<and> Post m = None)"
    have s: "(IsSystemMessage scs p \<longrightarrow> out = None)
        \<and> (\<not> IsSystemMessage scs p \<longrightarrow> (if omit then kept else sent))"
      unfolding omit_def sent_def kept_def by (rule post_out_shape[OF b])
    define code_c where "code_c \<longleftrightarrow> (EditAt p \<le> 0 \<or> EditAt p \<ge> T \<or> DeleteAt p \<noteq> 0)
               \<and> Post.RemoteId p \<noteq> Some (RemoteCluster.RemoteId rc)"
    define claim_c where "claim_c \<longleftrightarrow> (EditAt p = 0 \<or> EditAt p \<ge> T \<or> DeleteAt p > 0)
               \<and> Post.RemoteId p \<noteq> Some (RemoteCluster.RemoteId rc)"
    define nn where "nn \<longleftrightarrow> 0 \<le> EditAt p \<and> 0 \<le> DeleteAt p"
    have c1: "omit \<longleftrightarrow> \<not> code_c"
      unfolding omit_def code_c_def by auto
    have c2: "nn \<longrightarrow> (omit \<longleftrightarrow> \<not> claim_c)"
      unfolding omit_def claim_c_def nn_def by auto
    have "(IsSystemMessage scs p \<longrightarrow> out = None)
       \<and> (\<not> IsSystemMessage scs p \<longrightarrow>
            (code_c \<longrightarrow> sent) \<and> (\<not> code_c \<longrightarrow> kept)
          \<and> (nn \<longrightarrow> (claim_c \<longrightarrow> sent) \<and> (\<not> claim_c \<longrightarrow> kept)))"
      using s c1 c2 by (cases omit; cases nn) simp_all
    then show "(IsSystemMessage scs p \<longrightarrow> out = None)
       \<and> (\<not> IsSystemMessage scs p \<longrightarrow>
            ((EditAt p \<le> 0 \<or> EditAt p \<ge> T \<or> DeleteAt p \<noteq> 0)
               \<and> Post.RemoteId p \<noteq> Some (RemoteCluster.RemoteId rc)
             \<longrightarrow> (\<exists>m msg. out = Some m \<and> PostId m = Post.Id p
                    \<and> Post m = Some (p\<lparr>Message := msg\<rparr>)))
          \<and> (\<not> ((EditAt p \<le> 0 \<or> EditAt p \<ge> T \<or> DeleteAt p \<noteq> 0)
                 \<and> Post.RemoteId p \<noteq> Some (RemoteCluster.RemoteId rc))
             \<longrightarrow> (\<forall>m. out = Some m \<longrightarrow> PostId m = Post.Id p \<and> Post m = None))
          \<and> (0 \<le> EditAt p \<and> 0 \<le> DeleteAt p \<longrightarrow>
               ((EditAt p = 0 \<or> EditAt p \<ge> T \<or> DeleteAt p > 0)
                  \<and> Post.RemoteId p \<noteq> Some (RemoteCluster.RemoteId rc)
                \<longrightarrow> (\<exists>m msg. out = Some m \<and> PostId m = Post.Id p
                       \<and> Post m = Some (p\<lparr>Message := msg\<rparr>)))
             \<and> (\<not> ((EditAt p = 0 \<or> EditAt p \<ge> T \<or> DeleteAt p > 0)
                    \<and> Post.RemoteId p \<noteq> Some (RemoteCluster.RemoteId rc))
                \<longrightarrow> (\<forall>m. out = Some m \<longrightarrow> PostId m = Post.Id p \<and> Post m = None))))"
      unfolding sent_def kept_def code_c_def claim_c_def nn_def .
  qed
  then show ?thesis by simp
qed

text \<open>
  The theorem on the run of the in-memory instance: of its four posts, \<open>a\<close> yields a unit
  with its body, the system message \<open>s\<close> none, \<open>b\<close> (edited at 50, before the cursor
  100) a unit without body, and \<open>c\<close>, which originates from the remote, none.
\<close>

theorem post_body_included_iff_witness:
  "\<exists>outs. demoMsgs = List.map_filter (\<lambda>out. out) outs \<and>
     list_all2 (\<lambda>p out.
         (IsSystemMessage demoService p \<longrightarrow> out = None)
       \<and> (\<not> IsSystemMessage demoService p \<longrightarrow>
            ((EditAt p \<le> 0 \<or> EditAt p \<ge> 100 \<or> DeleteAt p \<noteq> 0)
               \<and> Post.RemoteId p \<noteq> Some (RemoteCluster.RemoteId demoRemote)
             \<longrightarrow> (\<exists>m msg. out = Some m \<and> PostId m = Post.Id p
                    \<and> Post m = Some (p\<lparr>Message := msg\<rparr>)))
          \<and> (\<not> ((EditAt p \<le> 0 \<or> EditAt p \<ge> 100 \<or> DeleteAt p \<noteq> 0)
                 \<and> Post.RemoteId p \<noteq> Some (RemoteCluster.RemoteId demoRemote))
             \<longrightarrow> (\<forall>m. out = Some m \<longrightarrow> PostId m = Post.Id p \<and> Post m = None))
          \<and> (0 \<le> EditAt p \<and> 0 \<le> DeleteAt p \<longrightarrow>
               ((EditAt p = 0 \<or> EditAt p \<ge> 100 \<or> DeleteAt p > 0)
                  \<and> Post.RemoteId p \<noteq> Some (RemoteCluster.RemoteId demoRemote)
                \<longrightarrow> (\<exists>m msg. out = Some m \<and> PostId m = Post.Id p
                       \<and> Post m = Some (p\<lparr>Message := msg\<rparr>)))
             \<and> (\<not> ((EditAt p = 0 \<or> EditAt p \<ge> 100 \<or> DeleteAt p > 0)
                    \<and> Post.RemoteId p \<noteq> Some (RemoteCluster.RemoteId demoRemote))
                \<longrightarrow> (\<forall>m. out = Some m \<longrightarrow> PostId m = Post.Id p \<and> Post m = None)))))
       demoPosts outs"
  by (rule post_body_included_iff[OF demo_run])

text \<open>
  With the condition written as \<^verbatim>\<open>EditAt == 0\<close>, \<^verbatim>\<open>EditAt >= nextSyncAt\<close>
  or \<^verbatim>\<open>DeleteAt > 0\<close> the equivalence fails for a negative \<^verbatim>\<open>EditAt\<close>:
  the test \<^verbatim>\<open>p.EditAt > 0\<close> is false, so the body is sent.
\<close>

theorem post_body_negative_EditAt_counterexample:
  "map_sum id (map (map_option Post.Id \<circ> Post))
       (fst (postsToSyncMessages demoService [mkPost ''n'' ''u1'' (- 1) 0 None] demoRemote 100 world0))
     = Inr [Some ''n'']
   \<and> \<not> ((EditAt (mkPost ''n'' ''u1'' (- 1) 0 None) = 0
          \<or> EditAt (mkPost ''n'' ''u1'' (- 1) 0 None) \<ge> 100
          \<or> DeleteAt (mkPost ''n'' ''u1'' (- 1) 0 None) > 0)
         \<and> Post.RemoteId (mkPost ''n'' ''u1'' (- 1) 0 None) \<noteq> Some (RemoteCluster.RemoteId demoRemote))"
  by (simp add: demo_defs)

subsection \<open>C2: no empty unit\<close>

text \<open>
  C2. No unit returned by \<^verbatim>\<open>postsToSyncMessages\<close> has a \<^verbatim>\<open>nil\<close> post, no
  users and no reactions. And a post that is not a system message, whose reaction fetch
  returns nothing, whose body is omitted and for which \<^verbatim>\<open>usersForPost\<close> returns no
  user adds nothing: the loop goes on with the units it had.
\<close>

theorem no_empty_unit:
  "(postsToSyncMessages scs posts rc T w = (Inr msgs, w') \<longrightarrow>
      (\<forall>m\<in>set msgs. \<not> (Post m = None \<and> Users m = [] \<and> Reactions m = [])))
   \<and> (\<not> IsSystemMessage scs p
      \<and> GetForPostSince scs (Post.Id p) T (RemoteCluster.RemoteId rc) True wa = (Inr [], wb)
      \<and> ((0 < EditAt p \<and> EditAt p < T \<and> DeleteAt p = 0)
          \<or> Post.RemoteId p = Some (RemoteCluster.RemoteId rc))
      \<and> usersForPost scs None [] rc c wb = ([], c1, wc)
     \<longrightarrow> postsToSyncMessages_loop scs rc T (p # ps) acc c wa =
          postsToSyncMessages_loop scs rc T ps acc c1 wc)"
proof (intro conjI impI)
  assume r: "postsToSyncMessages scs posts rc T w = (Inr msgs, w')"
  have "\<exists>src. subseq src posts \<and>
      list_all2 (\<lambda>p m. \<not> (Post m = None \<and> Users m = [] \<and> Reactions m = [])) src msgs"
  proof (rule postsToSyncMessages_sel[OF _ r])
    fix p c w m c' w1
    assume "postsToSyncMessages_post scs p rc T c w = (Inr (Some m), c', w1)"
    from post_unit_shape[OF this]
    show "\<not> (Post m = None \<and> Users m = [] \<and> Reactions m = [])" by blast
  qed
  then show "\<forall>m\<in>set msgs. \<not> (Post m = None \<and> Users m = [] \<and> Reactions m = [])"
    by (elim exE conjE)
       (rule list_all2_right_all[where Q = "\<lambda>m. \<not> (Post m = None \<and> Users m = [] \<and> Reactions m = [])"])
next
  assume a: "\<not> IsSystemMessage scs p
      \<and> GetForPostSince scs (Post.Id p) T (RemoteCluster.RemoteId rc) True wa = (Inr [], wb)
      \<and> ((0 < EditAt p \<and> EditAt p < T \<and> DeleteAt p = 0)
          \<or> Post.RemoteId p = Some (RemoteCluster.RemoteId rc))
      \<and> usersForPost scs None [] rc c wb = ([], c1, wc)"
  then have "postsToSyncMessages_post scs p rc T c wa = (Inr None, c1, wc)"
    by (auto simp: postsToSyncMessages_post_def)
  then show "postsToSyncMessages_loop scs rc T (p # ps) acc c wa =
          postsToSyncMessages_loop scs rc T ps acc c1 wc"
    by simp
qed

text \<open>
  The theorem on the run of the in-memory instance; the post \<open>c\<close>, which
  originates from the remote and has no reactions, adds nothing.
\<close>

theorem no_empty_unit_witness:
  "list_all (\<lambda>m. Post m \<noteq> None \<or> Users m \<noteq> [] \<or> Reactions m \<noteq> []) demoMsgs
   \<and> postsToSyncMessages_loop demoService demoRemote 100
        (mkPost ''c'' ''u1'' 0 0 (Some ''r1'') # [mkPost ''a'' ''u1'' 0 0 None]) demoMsgs {''u1''} demoWorld
      = postsToSyncMessages_loop demoService demoRemote 100
        [mkPost ''a'' ''u1'' 0 0 None] demoMsgs {''u1''} demoWorld"
proof -
  note t = no_empty_unit[where scs = demoService and rc = demoRemote
      and posts = demoPosts and T = 100 and w = world0 and msgs = demoMsgs and w' = demoWorld
      and p = "mkPost ''c'' ''u1'' 0 0 (Some ''r1'')" and wa = demoWorld and wb = demoWorld
      and wc = demoWorld and c = "{''u1''}" and ?c1.0 = "{''u1''}"
      and ps = "[mkPost ''a'' ''u1'' 0 0 None]" and acc = demoMsgs]
  from t demo_run have "\<forall>m\<in>set demoMsgs. \<not> (Post m = None \<and> Users m = [] \<and> Reactions m = [])"
    by blast
  then have 1: "list_all (\<lambda>m. Post m \<noteq> None \<or> Users m \<noteq> [] \<or> Reactions m \<noteq> []) demoMsgs"
    by (simp add: list_all_iff)
  have h: "\<not> IsSystemMessage demoService (mkPost ''c'' ''u1'' 0 0 (Some ''r1''))
      \<and> GetForPostSince demoService (Post.Id (mkPost ''c'' ''u1'' 0 0 (Some ''r1''))) 100
           (RemoteCluster.RemoteId demoRemote) True demoWorld = (Inr [], demoWorld)
      \<and> ((0 < EditAt (mkPost ''c'' ''u1'' 0 0 (Some ''r1''))
           \<and> EditAt (mkPost ''c'' ''u1'' 0 0 (Some ''r1'')) < 100
           \<and> DeleteAt (mkPost ''c'' ''u1'' 0 0 (Some ''r1'')) = 0)
          \<or> Post.RemoteId (mkPost ''c'' ''u1'' 0 0 (Some ''r1'')) = Some (RemoteCluster.RemoteId demoRemote))
      \<and> usersForPost demoService None [] demoRemote {''u1''} demoWorld = ([], {''u1''}, demoWorld)"
    by (simp add: demoService_def memService_def mkPost_def demoRemote_def usersForPost_def)
  from t h have 2: "postsToSyncMessages_loop demoService demoRemote 100
        (mkPost ''c'' ''u1'' 0 0 (Some ''r1'') # [mkPost ''a'' ''u1'' 0 0 None]) demoMsgs {''u1''} demoWorld
      = postsToSyncMessages_loop demoService demoRemote 100
        [mkPost ''a'' ''u1'' 0 0 None] demoMsgs {''u1''} demoWorld" by blast
  from 1 2 show ?thesis by (rule conjI)
qed

subsection \<open>C3: no user twice in a batch\<close>

text \<open>
  C3. When the user store answers a lookup of an id with the user of that id, the ids of
  the users of all the units of one call of \<^verbatim>\<open>postsToSyncMessages\<close>, taken in order,
  are pairwise different: no id twice in one unit, none in two units. The cache is marked
  at selection: after \<^verbatim>\<open>usersForPost\<close> it holds the author of the post and the
  authors of all the reactions, whatever the lookups and the gate answer.
\<close>

theorem user_ids_distinct_in_batch:
  assumes "\<forall>uid wa u0 wb. UserGet scs uid wa = (Inr u0, wb) \<longrightarrow> User.Id u0 = uid"
    and "postsToSyncMessages scs posts rc T w = (Inr msgs, w')"
  shows "distinct (concat (map (\<lambda>m. map User.Id (Users m)) msgs))
     \<and> fst (snd (usersForPost scs post rs rc c wa)) =
         c \<union> set_option (map_option Post.UserId post) \<union> Reaction.UserId ` set rs"
proof
  from assms(2) have "postsToSyncMessages_loop scs rc T posts [] {} w = (Inr msgs, w')"
    by (simp add: postsToSyncMessages_def)
  from loop_user_ids_distinct[OF assms(1) this]
  show "distinct (concat (map (\<lambda>m. map User.Id (Users m)) msgs))" by simp
  show "fst (snd (usersForPost scs post rs rc c wa)) =
         c \<union> set_option (map_option Post.UserId post) \<union> Reaction.UserId ` set rs"
    by (rule usersForPost_cache)
qed

text \<open>
  The theorem on the run of the in-memory instance, whose user store answers with the user
  asked for, and on a call of \<^verbatim>\<open>usersForPost\<close> with a reaction of an
  unknown user.
\<close>

theorem user_ids_distinct_in_batch_witness:
  "distinct (concat (map (\<lambda>m. map User.Id (Users m)) demoMsgs))
     \<and> fst (snd (usersForPost demoService (Some (mkPost ''a'' ''u1'' 0 0 None))
                    [\<lparr>Reaction.UserId = ''ghost''\<rparr>] demoRemote {''u9''} world0)) =
         {''u9''} \<union> set_option (map_option Post.UserId (Some (mkPost ''a'' ''u1'' 0 0 None)))
           \<union> Reaction.UserId ` set [\<lparr>Reaction.UserId = ''ghost''\<rparr>]"
  by (rule user_ids_distinct_in_batch[OF demo_userstore demo_run])

subsection \<open>C4: a user is never sent to its origin\<close>

text \<open>
  C4. For a user whose \<^verbatim>\<open>RemoteId\<close> is set and equals the remote's id,
  \<^verbatim>\<open>shouldUserSync\<close> returns \<^verbatim>\<open>(false, nil)\<close> and touches nothing. Every user
  in a unit returned by \<^verbatim>\<open>postsToSyncMessages\<close> is the scrubbed copy of a user of the
  store whose \<^verbatim>\<open>RemoteId\<close> is not the remote's id, and has that same
  \<^verbatim>\<open>RemoteId\<close>.
\<close>

theorem origin_user_never_synced:
  "(User.RemoteId user = Some (RemoteCluster.RemoteId rc) \<longrightarrow>
      shouldUserSync scs user rc w = ((False, None), w))
   \<and> (postsToSyncMessages scs posts rc T w0 = (Inr msgs, w') \<longrightarrow>
      (\<forall>m\<in>set msgs. \<forall>su\<in>set (Users m).
          User.RemoteId su \<noteq> Some (RemoteCluster.RemoteId rc)
        \<and> (\<exists>uid u0 wa wb wc wd.
              UserGet scs uid wa = (Inr u0, wb)
            \<and> User.RemoteId u0 \<noteq> Some (RemoteCluster.RemoteId rc)
            \<and> sanitizeUserForSync scs u0 wc = (su, wd))))"
proof (intro conjI impI)
  assume "User.RemoteId user = Some (RemoteCluster.RemoteId rc)"
  then show "shouldUserSync scs user rc w = ((False, None), w)"
    by (simp add: shouldUserSync_def)
next
  assume r: "postsToSyncMessages scs posts rc T w0 = (Inr msgs, w')"
  show "\<forall>m\<in>set msgs. \<forall>su\<in>set (Users m).
          User.RemoteId su \<noteq> Some (RemoteCluster.RemoteId rc)
        \<and> (\<exists>uid u0 wa wb wc wd.
              UserGet scs uid wa = (Inr u0, wb)
            \<and> User.RemoteId u0 \<noteq> Some (RemoteCluster.RemoteId rc)
            \<and> sanitizeUserForSync scs u0 wc = (su, wd))"
  proof (rule emitted_users[OF _ r])
    fix uid wa u0 wb wc su wd
    assume g: "UserGet scs uid wa = (Inr u0, wb)"
      and s: "shouldUserSync scs u0 rc wb = ((True, None), wc)"
      and z: "sanitizeUserForSync scs u0 wc = (su, wd)"
    have o: "User.RemoteId u0 \<noteq> Some (RemoteCluster.RemoteId rc)"
      using s by (rule shouldUserSync_origin)
    moreover have "User.RemoteId su = User.RemoteId u0" using sanitize_Id[OF z] by simp
    ultimately show "User.RemoteId su \<noteq> Some (RemoteCluster.RemoteId rc)
        \<and> (\<exists>uid u0 wa wb wc wd.
              UserGet scs uid wa = (Inr u0, wb)
            \<and> User.RemoteId u0 \<noteq> Some (RemoteCluster.RemoteId rc)
            \<and> sanitizeUserForSync scs u0 wc = (su, wd))"
      using g z by metis
  qed
qed

text \<open>
  The user \<open>u2\<close> of the in-memory instance originates from the remote; no unit
  of the run holds a user of that origin.
\<close>

theorem origin_user_never_synced_witness:
  "shouldUserSync demoService (mkUser ''u2'' 5 (Some ''r1'')) demoRemote world0
      = ((False, None), world0)
   \<and> list_all (\<lambda>m. list_all (\<lambda>su. User.RemoteId su \<noteq> Some ''r1'') (Users m)) demoMsgs"
proof -
  note t = origin_user_never_synced[where scs = demoService and rc = demoRemote
      and user = "mkUser ''u2'' 5 (Some ''r1'')" and w = world0
      and posts = demoPosts and T = 100 and ?w0.0 = world0 and msgs = demoMsgs and w' = demoWorld]
  have o: "User.RemoteId (mkUser ''u2'' 5 (Some ''r1'')) = Some (RemoteCluster.RemoteId demoRemote)"
    by (simp add: mkUser_def demoRemote_def)
  from t o have 1: "shouldUserSync demoService (mkUser ''u2'' 5 (Some ''r1'')) demoRemote world0
      = ((False, None), world0)" by blast
  from t demo_run have "\<forall>m\<in>set demoMsgs. \<forall>su\<in>set (Users m).
      User.RemoteId su \<noteq> Some (RemoteCluster.RemoteId demoRemote)" by blast
  then have 2: "list_all (\<lambda>m. list_all (\<lambda>su. User.RemoteId su \<noteq> Some ''r1'') (Users m)) demoMsgs"
    by (simp add: list_all_iff demoRemote_def)
  from 1 2 show ?thesis by (rule conjI)
qed

subsection \<open>C5: the cursor decides\<close>

text \<open>
  C5. For a user that does not originate from the remote, \<^verbatim>\<open>shouldUserSync\<close> returns
  \<^verbatim>\<open>(false, nil)\<close> when the cursor is found with \<^verbatim>\<open>LastSyncAt >= UpdateAt\<close>,
  \<^verbatim>\<open>(true, nil)\<close> when it is found with \<^verbatim>\<open>LastSyncAt < UpdateAt\<close>, and
  \<^verbatim>\<open>(true, nil)\<close> when the lookup fails with a not-found error. In that last case it
  saves a new cursor for the user and the remote, with \<^verbatim>\<open>LastSyncAt\<close> zero; when the
  save fails the failure is logged and the answer is the same.
\<close>

theorem shouldUserSync_cursor_cases:
  assumes "User.RemoteId user \<noteq> Some (RemoteCluster.RemoteId rc)"
  shows "(GetUser scs (User.Id user) (RemoteCluster.RemoteId rc) w = (Inr scu, w1)
            \<and> LastSyncAt scu \<ge> UpdateAt user
          \<longrightarrow> shouldUserSync scs user rc w = ((False, None), w1))
       \<and> (GetUser scs (User.Id user) (RemoteCluster.RemoteId rc) w = (Inr scu, w1)
            \<and> LastSyncAt scu < UpdateAt user
          \<longrightarrow> shouldUserSync scs user rc w = ((True, None), w1))
       \<and> (GetUser scs (User.Id user) (RemoteCluster.RemoteId rc) w = (Inl err, w1)
            \<and> is_errNotFound err
          \<longrightarrow> (\<exists>saved w2.
                 SaveUser scs \<lparr>SharedChannelUser.UserId = User.Id user,
                                SharedChannelUser.RemoteId = RemoteCluster.RemoteId rc,
                                LastSyncAt = 0\<rparr> w1 = (saved, w2)
               \<and> shouldUserSync scs user rc w =
                   ((True, None),
                    (case saved of
                       Inl e \<Rightarrow> Log scs ''Error adding user to shared channel users'' w2
                     | Inr s \<Rightarrow> w2))))"
proof -
  have n: "\<not> (User.RemoteId user \<noteq> None \<and> the (User.RemoteId user) = RemoteCluster.RemoteId rc)"
    using assms by auto
  show ?thesis
    unfolding shouldUserSync_def using n
    by (auto split: prod.splits sum.splits)
qed

text \<open>
  The three cases on the in-memory instance: a cursor of 10 against a user updated at 5,
  the same cursor against a user updated at 20, and no cursor.
\<close>

theorem shouldUserSync_cursor_cases_witness:
  "shouldUserSync demoService (mkUser ''u1'' 5 None) demoRemote
       (world0\<lparr>cursors := [\<lparr>SharedChannelUser.UserId = ''u1'', SharedChannelUser.RemoteId = ''r1'', LastSyncAt = 10\<rparr>]\<rparr>)
     = ((False, None),
        world0\<lparr>cursors := [\<lparr>SharedChannelUser.UserId = ''u1'', SharedChannelUser.RemoteId = ''r1'', LastSyncAt = 10\<rparr>]\<rparr>)
   \<and> shouldUserSync demoService (mkUser ''u1'' 20 None) demoRemote
       (world0\<lparr>cursors := [\<lparr>SharedChannelUser.UserId = ''u1'', SharedChannelUser.RemoteId = ''r1'', LastSyncAt = 10\<rparr>]\<rparr>)
     = ((True, None),
        world0\<lparr>cursors := [\<lparr>SharedChannelUser.UserId = ''u1'', SharedChannelUser.RemoteId = ''r1'', LastSyncAt = 10\<rparr>]\<rparr>)
   \<and> shouldUserSync demoService (mkUser ''u1'' 5 None) demoRemote world0
     = ((True, None),
        world0\<lparr>cursors := [\<lparr>SharedChannelUser.UserId = ''u1'', SharedChannelUser.RemoteId = ''r1'', LastSyncAt = 0\<rparr>]\<rparr>)"
proof -
  define cur where "cur = \<lparr>SharedChannelUser.UserId = ''u1'', SharedChannelUser.RemoteId = ''r1'', LastSyncAt = 10\<rparr>"
  define wc where "wc = world0\<lparr>cursors := [cur]\<rparr>"
  have o: "User.RemoteId (mkUser ''u1'' upd None) \<noteq> Some (RemoteCluster.RemoteId demoRemote)" for upd
    by (simp add: mkUser_def)
  have g: "GetUser demoService (User.Id (mkUser ''u1'' upd None)) (RemoteCluster.RemoteId demoRemote) wc
      = (Inr cur, wc)" for upd
    by (simp add: demoService_def memService_def mkUser_def demoRemote_def wc_def cur_def world0_def)
  have g0: "GetUser demoService (User.Id (mkUser ''u1'' 5 None)) (RemoteCluster.RemoteId demoRemote) world0
      = (Inl (ErrNotFound ''u1''), world0)"
    by (simp add: demoService_def memService_def mkUser_def demoRemote_def world0_def)
  have l: "LastSyncAt cur \<ge> UpdateAt (mkUser ''u1'' 5 None)" "LastSyncAt cur < UpdateAt (mkUser ''u1'' 20 None)"
    by (simp_all add: cur_def mkUser_def)
  have 1: "shouldUserSync demoService (mkUser ''u1'' 5 None) demoRemote wc = ((False, None), wc)"
    using shouldUserSync_cursor_cases[OF o, where scs = demoService and w = wc and scu = cur and ?w1.0 = wc] g l
    by blast
  have 2: "shouldUserSync demoService (mkUser ''u1'' 20 None) demoRemote wc = ((True, None), wc)"
    using shouldUserSync_cursor_cases[OF o, where scs = demoService and w = wc and scu = cur and ?w1.0 = wc] g l
    by blast
  have "\<exists>saved w2.
      SaveUser demoService \<lparr>SharedChannelUser.UserId = User.Id (mkUser ''u1'' 5 None),
                                SharedChannelUser.RemoteId = RemoteCluster.RemoteId demoRemote,
                                LastSyncAt = 0\<rparr> world0 = (saved, w2)
               \<and> shouldUserSync demoService (mkUser ''u1'' 5 None) demoRemote world0 =
                   ((True, None),
                    (case saved of
                       Inl e \<Rightarrow> Log demoService ''Error adding user to shared channel users'' w2
                     | Inr s \<Rightarrow> w2))"
    using shouldUserSync_cursor_cases[OF o, where scs = demoService and w = world0
        and err = "ErrNotFound ''u1''" and ?w1.0 = world0] g0
    by simp
  then have 3: "shouldUserSync demoService (mkUser ''u1'' 5 None) demoRemote world0
     = ((True, None),
        world0\<lparr>cursors := [\<lparr>SharedChannelUser.UserId = ''u1'', SharedChannelUser.RemoteId = ''r1'', LastSyncAt = 0\<rparr>]\<rparr>)"
    by (auto simp: demoService_def memService_def mkUser_def demoRemote_def world0_def)
  from 1 2 3 show ?thesis unfolding wc_def cur_def by (intro conjI)
qed

subsection \<open>C6: a failed reaction fetch aborts the batch\<close>

text \<open>
  C6. If the posts before \<open>p\<close> are processed without error, \<open>p\<close> is not a system
  message and the reaction fetch for \<open>p\<close> fails in the world reached then, the call
  returns exactly that error, in the world the failed fetch left: nothing is called
  afterwards, and the result holds no unit, neither of \<open>p\<close> nor of the posts after it
  nor of those before it.
\<close>

theorem reaction_fetch_failure_aborts:
  assumes "postsToSyncMessages scs pre rc T w = (Inr msgs, w1)"
    and "\<not> IsSystemMessage scs p"
    and "GetForPostSince scs (Post.Id p) T (RemoteCluster.RemoteId rc) True w1 = (Inl err, w2)"
  shows "postsToSyncMessages scs (pre @ p # rest) rc T w = (Inl err, w2)"
  using loop_prefix_abort[OF assms(1)[unfolded postsToSyncMessages_def] assms(2,3)]
  by (simp add: postsToSyncMessages_def)

text \<open>
  The in-memory instance fails to fetch the reactions of the post \<open>x\<close>: with
  \<open>x\<close> and one more post after the posts of the run, the call returns the
  error.
\<close>

theorem reaction_fetch_failure_aborts_witness:
  "postsToSyncMessages demoService
      (demoPosts @ mkPost ''x'' ''u1'' 0 0 None # [mkPost ''z'' ''u1'' 0 0 None]) demoRemote 100 world0
     = (Inl (ErrOther ''reaction store unavailable''), demoWorld)"
proof (rule reaction_fetch_failure_aborts[OF demo_run])
  show "\<not> IsSystemMessage demoService (mkPost ''x'' ''u1'' 0 0 None)"
    by (simp add: demoService_def memService_def mkPost_def)
  show "GetForPostSince demoService (Post.Id (mkPost ''x'' ''u1'' 0 0 None)) 100
          (RemoteCluster.RemoteId demoRemote) True demoWorld
        = (Inl (ErrOther ''reaction store unavailable''), demoWorld)"
    by (simp add: demoService_def memService_def mkPost_def)
qed

subsection \<open>C7: the scrubber is idempotent and always applied\<close>

text \<open>
  C7. Scrubbing a scrubbed user again changes nothing but the password, which is again
  the id that \<^verbatim>\<open>model.NewId\<close> issues: the sanitized shape is the same. Every user in
  a unit returned by \<^verbatim>\<open>postsToSyncMessages\<close> is the result of
  \<^verbatim>\<open>sanitizeUserForSync\<close> on a user that the store returned.
\<close>

theorem scrubber_idempotent_and_applied:
  "sanitizeUserForSync scs (fst (sanitizeUserForSync scs u w)) w2 =
     ((fst (sanitizeUserForSync scs u w))\<lparr>Password := fst (NewId scs w2)\<rparr>, snd (NewId scs w2))
   \<and> (postsToSyncMessages scs posts rc T w0 = (Inr msgs, w') \<longrightarrow>
      (\<forall>m\<in>set msgs. \<forall>su\<in>set (Users m).
         \<exists>uid u0 wa wb wc wd.
            UserGet scs uid wa = (Inr u0, wb) \<and> sanitizeUserForSync scs u0 wc = (su, wd)))"
proof (intro conjI impI)
  show "sanitizeUserForSync scs (fst (sanitizeUserForSync scs u w)) w2 =
     ((fst (sanitizeUserForSync scs u w))\<lparr>Password := fst (NewId scs w2)\<rparr>, snd (NewId scs w2))"
    by (cases "NewId scs w"; cases "NewId scs w2") (simp add: sanitizeUserForSync_def)
next
  assume r: "postsToSyncMessages scs posts rc T w0 = (Inr msgs, w')"
  show "\<forall>m\<in>set msgs. \<forall>su\<in>set (Users m).
         \<exists>uid u0 wa wb wc wd.
            UserGet scs uid wa = (Inr u0, wb) \<and> sanitizeUserForSync scs u0 wc = (su, wd)"
  proof (rule emitted_users[OF _ r])
    fix uid wa u0 wb wc su wd
    assume "UserGet scs uid wa = (Inr u0, wb)" "sanitizeUserForSync scs u0 wc = (su, wd)"
    then show "\<exists>uid u0 wa wb wc wd.
            UserGet scs uid wa = (Inr u0, wb) \<and> sanitizeUserForSync scs u0 wc = (su, wd)"
      by blast
  qed
qed

text \<open>
  The theorem on the user \<open>u1\<close> and on the run of the in-memory instance.
\<close>

theorem scrubber_idempotent_and_applied_witness:
  "sanitizeUserForSync demoService
       (fst (sanitizeUserForSync demoService (mkUser ''u1'' 5 None) world0)) demoWorld
     = ((fst (sanitizeUserForSync demoService (mkUser ''u1'' 5 None) world0))\<lparr>Password := ''kkk''\<rparr>,
        demoWorld\<lparr>issued := 3\<rparr>)
   \<and> list_all (\<lambda>m. list_all (\<lambda>su. \<exists>uid u0 wa wb wc wd.
          UserGet demoService uid wa = (Inr u0, wb)
        \<and> sanitizeUserForSync demoService u0 wc = (su, wd)) (Users m)) demoMsgs"
proof -
  note t = scrubber_idempotent_and_applied[where scs = demoService and rc = demoRemote
      and u = "mkUser ''u1'' 5 None" and w = world0 and ?w2.0 = demoWorld
      and posts = demoPosts and T = 100 and ?w0.0 = world0 and msgs = demoMsgs and w' = demoWorld]
  have n: "NewId demoService demoWorld = (''kkk'', demoWorld\<lparr>issued := 3\<rparr>)"
    by (simp add: demoService_def memService_def demoWorld_def eval_nat_numeral)
  from t have 1: "sanitizeUserForSync demoService
       (fst (sanitizeUserForSync demoService (mkUser ''u1'' 5 None) world0)) demoWorld
     = ((fst (sanitizeUserForSync demoService (mkUser ''u1'' 5 None) world0))\<lparr>Password := ''kkk''\<rparr>,
        demoWorld\<lparr>issued := 3\<rparr>)"
    unfolding n by simp
  from t demo_run have "\<forall>m\<in>set demoMsgs. \<forall>su\<in>set (Users m). \<exists>uid u0 wa wb wc wd.
          UserGet demoService uid wa = (Inr u0, wb)
        \<and> sanitizeUserForSync demoService u0 wc = (su, wd)" by blast
  then have 2: "list_all (\<lambda>m. list_all (\<lambda>su. \<exists>uid u0 wa wb wc wd.
          UserGet demoService uid wa = (Inr u0, wb)
        \<and> sanitizeUserForSync demoService u0 wc = (su, wd)) (Users m)) demoMsgs"
    by (simp add: list_all_iff)
  from 1 2 show ?thesis by (rule conjI)
qed

subsection \<open>C8: what the scrubber changes\<close>

text \<open>
  C8. \<^verbatim>\<open>sanitizeUserForSync\<close> always returns a user (its result has no error case):
  the password is the id that \<^verbatim>\<open>model.NewId\<close> issues, \<^verbatim>\<open>AuthData\<close> is
  \<^verbatim>\<open>nil\<close>, \<^verbatim>\<open>AuthService\<close> is empty, \<^verbatim>\<open>Roles\<close> is
  \<^verbatim>\<open>system_user\<close>, \<^verbatim>\<open>AllowMarketing\<close> is false, \<^verbatim>\<open>Props\<close> and
  \<^verbatim>\<open>NotifyProps\<close> are empty, \<^verbatim>\<open>LastPasswordUpdate\<close>,
  \<^verbatim>\<open>LastPictureUpdate\<close> and \<^verbatim>\<open>FailedAttempts\<close> are zero, \<^verbatim>\<open>MfaActive\<close>
  is false and \<^verbatim>\<open>MfaSecret\<close> is empty. Every other field is the one of the user
  given: \<^verbatim>\<open>Id\<close>, \<^verbatim>\<open>UpdateAt\<close>, \<^verbatim>\<open>RemoteId\<close> and, in the extension
  slot, all the fields that \<^verbatim>\<open>msg.go\<close> does not name (the user name among them).
\<close>

theorem sanitizeUserForSync_resets_listed_fields_only:
  "\<exists>s w'. sanitizeUserForSync scs u w = (s, w')
     \<and> NewId scs w = (Password s, w')
     \<and> AuthData s = None \<and> AuthService s = '''' \<and> Roles s = ''system_user''
     \<and> AllowMarketing s = False \<and> Props s = Map.empty \<and> NotifyProps s = Map.empty
     \<and> LastPasswordUpdate s = 0 \<and> LastPictureUpdate s = 0 \<and> FailedAttempts s = 0
     \<and> MfaActive s = False \<and> MfaSecret s = ''''
     \<and> User.Id s = User.Id u \<and> UpdateAt s = UpdateAt u \<and> User.RemoteId s = User.RemoteId u
     \<and> User.more s = User.more u"
  by (cases "NewId scs w") (simp add: sanitizeUserForSync_def)

text \<open>The scrubber on the user \<open>u1\<close> of the in-memory instance.\<close>

theorem sanitizeUserForSync_resets_listed_fields_only_witness:
  "sanitizeUserForSync demoService (mkUser ''u1'' 5 None) world0 =
     (\<lparr>User.Id = ''u1'', UpdateAt = 5, User.RemoteId = None, Password = ''k'',
       AuthData = None, AuthService = [], Roles = ''system_user'',
       AllowMarketing = False, Props = Map.empty, NotifyProps = Map.empty,
       LastPasswordUpdate = 0, LastPictureUpdate = 0, FailedAttempts = 0,
       MfaActive = False, MfaSecret = []\<rparr>,
      world0\<lparr>issued := 1\<rparr>)"
  using sanitizeUserForSync_resets_listed_fields_only[of demoService "mkUser ''u1'' 5 None" world0]
  by (simp add: demo_defs)

subsection \<open>C9: a failing user is skipped, nothing more\<close>



subsection \<open>C10: units follow their posts\<close>

text \<open>
  C10. The units returned by \<^verbatim>\<open>postsToSyncMessages\<close> correspond, one to one and in
  order, to a subsequence of the input posts, and each unit has the
  \<^verbatim>\<open>ChannelId\<close> and the \<^verbatim>\<open>Id\<close> of its post, whether its \<^verbatim>\<open>Post\<close> field
  is set or not.
\<close>

theorem units_follow_posts:
  assumes "postsToSyncMessages scs posts rc T w = (Inr msgs, w')"
  shows "\<exists>src. subseq src posts \<and>
     list_all2 (\<lambda>p m. ChannelId m = Post.ChannelId p \<and> PostId m = Post.Id p) src msgs"
proof (rule postsToSyncMessages_sel[OF _ assms])
  fix p c w m c' w1
  assume "postsToSyncMessages_post scs p rc T c w = (Inr (Some m), c', w1)"
  from post_unit_shape[OF this]
  show "ChannelId m = Post.ChannelId p \<and> PostId m = Post.Id p" by blast
qed

text \<open>The theorem on the run of the in-memory instance.\<close>

theorem units_follow_posts_witness:
  "\<exists>src. subseq src demoPosts \<and>
     list_all2 (\<lambda>p m. ChannelId m = Post.ChannelId p \<and> PostId m = Post.Id p) src demoMsgs"
  by (rule units_follow_posts[OF demo_run])

end
